theory Spec2Isabelle
  imports Main
begin

section \<open>Python values used by \<^verbatim>\<open>transform_xml.py\<close>\<close>

text \<open>
  A Python \<^verbatim>\<open>str\<close> is a sequence of code points, modelled as a list of natural
  numbers; \<open>ustr\<close> embeds a literal. A Python \<^verbatim>\<open>int\<close> is an unbounded \<^typ>\<open>int\<close>.
  An exception is a value of type \<open>error\<close>, and a function that can raise
  returns \<open>error + 'a\<close>.
\<close>

type_synonym ustring = "nat list"

definition ustr :: "string \<Rightarrow> ustring" where
  "ustr s = map of_char s"

abbreviation (input) cp :: "char \<Rightarrow> nat" where
  "cp c \<equiv> of_char c"

datatype error = ValueError | OSError string | UnicodeDecodeError string

text \<open>
  The decimal digits of the interpreter: the characters that the pattern class
  \<^verbatim>\<open>\d\<close> of a \<^verbatim>\<open>str\<close> pattern matches and that \<^verbatim>\<open>int()\<close> reads as digits. They
  come in runs of ten consecutive code points, from a zero to a nine;
  \<open>decimal_zeros\<close> lists the zero of every run of the Unicode database 14.0, the
  one of CPython 3.11, and \<open>decimal c\<close> is the value of the digit \<open>c\<close>.
\<close>

definition decimal_zeros :: "nat list" where
  "decimal_zeros =
     [48, 1632, 1776, 1984, 2406, 2534, 2662, 2790, 2918, 3046, 3174, 3302, 3430,
      3558, 3664, 3792, 3872, 4160, 4240, 6112, 6160, 6470, 6608, 6784, 6800, 6992,
      7088, 7232, 7248, 42528, 43216, 43264, 43472, 43504, 43600, 44016, 65296,
      66720, 68912, 69734, 69872, 69942, 70096, 70384, 70736, 70864, 71248, 71360,
      71472, 71904, 72016, 72784, 73040, 73120, 92768, 92864, 93008, 120782, 120792,
      120802, 120812, 120822, 123200, 123632, 125264, 130032]"

definition decimal :: "nat \<Rightarrow> nat option" where
  "decimal c =
     (case find (\<lambda>z. z \<le> c \<and> c < z + 10) decimal_zeros of
        None \<Rightarrow> None
      | Some z \<Rightarrow> Some (c - z))"

definition is_digit :: "nat \<Rightarrow> bool" where
  "is_digit c = (decimal c \<noteq> None)"

definition digit_val :: "nat \<Rightarrow> nat" where
  "digit_val c = (case decimal c of None \<Rightarrow> 0 | Some d \<Rightarrow> d)"

text \<open>The digits that Python writes are those of ASCII.\<close>

definition digit_char :: "nat \<Rightarrow> nat" where
  "digit_char d = 48 + d"

definition is_ascii_digit :: "nat \<Rightarrow> bool" where
  "is_ascii_digit c = (48 \<le> c \<and> c \<le> 57)"

text \<open>The value of a run of decimal digits, most significant digit first.\<close>

definition dec_val :: "ustring \<Rightarrow> nat" where
  "dec_val ds = foldl (\<lambda>a c. 10 * a + digit_val c) 0 ds"

text \<open>The decimal digits of a natural number, without leading zeros.\<close>

fun dec_str :: "nat \<Rightarrow> ustring" where
  "dec_str n = (if n < 10 then [digit_char n]
                else dec_str (n div 10) @ [digit_char (n mod 10)])"

declare dec_str.simps [simp del]

text \<open>
  CPython refuses to convert between \<^verbatim>\<open>str\<close> and \<^verbatim>\<open>int\<close> when the number has more
  decimal digits than \<^verbatim>\<open>sys.get_int_max_str_digits()\<close>, 4300 unless the program
  changes it, which this one does not: the conversion raises \<^verbatim>\<open>ValueError\<close>. The
  sign, white space, underscores and padding do not count; leading zeros of a
  string that is read do.
\<close>

definition max_str_digits :: nat where
  "max_str_digits = 4300"

text \<open>
  The decimal string of an integer: a dash when it is negative, then its digits.
  \<^verbatim>\<open>str(i)\<close> and the f-string field \<^verbatim>\<open>{i}\<close> give it, or raise.
\<close>

definition dec_int :: "int \<Rightarrow> ustring" where
  "dec_int i = (if i < 0 then cp (CHR ''-'') # dec_str (nat (- i)) else dec_str (nat i))"

definition py_str :: "int \<Rightarrow> error + ustring" where
  "py_str i =
     (if max_str_digits < length (dec_str (nat \<bar>i\<bar>)) then Inl ValueError
      else Inr (dec_int i))"

text \<open>
  The f-string field \<^verbatim>\<open>{i:03d}\<close>: the sign first when \<open>i\<close> is negative, then
  zeros, then the digits, the zeros filling the field up to three characters, sign
  included. The width is a minimum: a longer numeral is not cut. The field raises
  as \<^verbatim>\<open>str\<close> does.
\<close>

definition field_03d :: "int \<Rightarrow> ustring" where
  "field_03d i =
     (let sign = (if i < 0 then ustr ''-'' else []);
          ds = dec_str (nat \<bar>i\<bar>)
      in sign @ replicate (3 - length sign - length ds) (cp (CHR ''0'')) @ ds)"

definition format_03d :: "int \<Rightarrow> error + ustring" where
  "format_03d i =
     (if max_str_digits < length (dec_str (nat \<bar>i\<bar>)) then Inl ValueError
      else Inr (field_03d i))"

text \<open>
  \<^verbatim>\<open>int(s)\<close> on a string: white space is skipped at both ends, one sign is
  optional, and the rest is a run of digits in which single underscores may
  separate digits. Anything else raises \<^verbatim>\<open>ValueError\<close>, and so does a run of more
  than \<open>max_str_digits\<close> digits. The white space that \<^verbatim>\<open>int\<close> skips is that of
  ASCII (tab to carriage return, and the space) and the white space of Unicode
  from code point 127 on.
\<close>

definition space_points :: "nat list" where
  "space_points =
     [9, 10, 11, 12, 13, 32, 133, 160, 5760, 8192, 8193, 8194, 8195, 8196, 8197,
      8198, 8199, 8200, 8201, 8202, 8232, 8233, 8239, 8287, 12288]"

definition is_space :: "nat \<Rightarrow> bool" where
  "is_space c = (c \<in> set space_points)"

definition strip :: "ustring \<Rightarrow> ustring" where
  "strip s = rev (dropWhile is_space (rev (dropWhile is_space s)))"

fun int_body_ok :: "bool \<Rightarrow> ustring \<Rightarrow> bool" where
  "int_body_ok prev [] = prev"
| "int_body_ok prev (c # cs) =
     (if is_digit c then int_body_ok True cs
      else c = cp (CHR ''_'') \<and> prev \<and> int_body_ok False cs)"

definition int_body :: "ustring \<Rightarrow> error + nat" where
  "int_body b =
     (if int_body_ok False b then
        (if max_str_digits < length (filter is_digit b) then Inl ValueError
         else Inr (dec_val (filter is_digit b)))
      else Inl ValueError)"

definition py_int :: "ustring \<Rightarrow> error + int" where
  "py_int s =
     (case strip s of
        [] \<Rightarrow> Inl ValueError
      | c # cs \<Rightarrow>
          if c = cp (CHR ''-'') then
            (case int_body cs of Inl e \<Rightarrow> Inl e | Inr n \<Rightarrow> Inr (- int n))
          else if c = cp (CHR ''+'') then
            (case int_body cs of Inl e \<Rightarrow> Inl e | Inr n \<Rightarrow> Inr (int n))
          else
            (case int_body (c # cs) of Inl e \<Rightarrow> Inl e | Inr n \<Rightarrow> Inr (int n)))"

section \<open>The coordinate transformer\<close>

definition transform_coordinate :: "int \<Rightarrow> int" where
  "transform_coordinate v = - v + 25"

section \<open>Regular-expression matching\<close>

text \<open>
  The patterns of the program are sequences of literals and of greedy digit runs
  \<^verbatim>\<open>\d+\<close>. Each run is followed by a literal that starts with a character that is
  not a digit, so giving back digits of a run never lets a failed attempt succeed:
  the matcher below takes the whole run and does not backtrack. Likewise \<^verbatim>\<open>-?\<close>
  takes the dash when there is one, since a digit run cannot start at a dash.
\<close>

text \<open>A literal at the start of \<open>s\<close>: what follows it, when \<open>s\<close> starts with it.\<close>

definition match_lit :: "ustring \<Rightarrow> ustring \<Rightarrow> ustring option" where
  "match_lit lit s =
     (if take (length lit) s = lit then Some (drop (length lit) s) else None)"

text \<open>\<^verbatim>\<open>\d+\<close> at the start of \<open>s\<close>: the run and what follows it.\<close>

definition match_digits :: "ustring \<Rightarrow> (ustring \<times> ustring) option" where
  "match_digits s =
     (if takeWhile is_digit s = [] then None
      else Some (takeWhile is_digit s, dropWhile is_digit s))"

text \<open>\<^verbatim>\<open>-?\d+\<close> at the start of \<open>s\<close>.\<close>

definition match_signed :: "ustring \<Rightarrow> (ustring \<times> ustring) option" where
  "match_signed s =
     (case s of
        [] \<Rightarrow> None
      | c # cs \<Rightarrow>
          if c = cp (CHR ''-'') then
            (case match_digits cs of
               None \<Rightarrow> None
             | Some (ds, rest) \<Rightarrow> Some (cp (CHR ''-'') # ds, rest))
          else match_digits s)"

text \<open>\<^verbatim>\<open>-\d+\<close> at the start of \<open>s\<close>.\<close>

definition match_dash_digits :: "ustring \<Rightarrow> (ustring \<times> ustring) option" where
  "match_dash_digits s =
     (case s of
        [] \<Rightarrow> None
      | c # cs \<Rightarrow>
          if c = cp (CHR ''-'') then
            (case match_digits cs of
               None \<Rightarrow> None
             | Some (ds, rest) \<Rightarrow> Some (cp (CHR ''-'') # ds, rest))
          else None)"

text \<open>
  \<^verbatim>\<open>$\<close> without the multi-line flag: the end of the string, or the position just
  before a line feed that ends the string.
\<close>

definition at_end :: "ustring \<Rightarrow> bool" where
  "at_end s = (s = [] \<or> s = [10])"

section \<open>The content rewriter\<close>

definition open_tag :: "ustring \<Rightarrow> ustring" where
  "open_tag tag = ustr ''<'' @ tag @ ustr ''>''"

definition close_tag :: "ustring \<Rightarrow> ustring" where
  "close_tag tag = ustr ''</'' @ tag @ ustr ''>''"

text \<open>
  The pattern \<^verbatim>\<open><TAG>(-?\d+)</TAG>\<close> at the start of \<open>s\<close>: group 1 and what follows
  the match.
\<close>

definition match_coord :: "ustring \<Rightarrow> ustring \<Rightarrow> (ustring \<times> ustring) option" where
  "match_coord tag s =
     (case match_lit (open_tag tag) s of
        None \<Rightarrow> None
      | Some s1 \<Rightarrow>
          (case match_signed s1 of
             None \<Rightarrow> None
           | Some (g, s2) \<Rightarrow>
               (case match_lit (close_tag tag) s2 of
                  None \<Rightarrow> None
                | Some rest \<Rightarrow> Some (g, rest))))"

text \<open>
  \<^verbatim>\<open>re.sub(pattern, repl, string)\<close> for the pattern of \<open>tag\<close> and a callback
  \<open>repl\<close> on group 1: the string is scanned from the left; a match is replaced by
  what the callback returns and the scan goes on after the match; a character at
  which the pattern does not match is copied. An exception of the callback ends
  the call.
\<close>

function re_sub_coord :: "ustring \<Rightarrow> (ustring \<Rightarrow> error + ustring) \<Rightarrow> ustring \<Rightarrow> error + ustring" where
  "re_sub_coord tag repl [] = Inr []"
| "re_sub_coord tag repl (c # cs) =
     (case match_coord tag (c # cs) of
        None \<Rightarrow>
          (case re_sub_coord tag repl cs of
             Inl e \<Rightarrow> Inl e
           | Inr out \<Rightarrow> Inr (c # out))
      | Some (g, rest) \<Rightarrow>
          (case repl g of
             Inl e \<Rightarrow> Inl e
           | Inr new \<Rightarrow>
               (case re_sub_coord tag repl rest of
                  Inl e \<Rightarrow> Inl e
                | Inr out \<Rightarrow> Inr (new @ out))))"
  by pat_completeness auto
termination
proof (relation "measure (\<lambda>(tag, repl, s). length s)")
  show "wf (measure (\<lambda>(tag, repl, s). length s))"
    by simp
next
  fix tag :: ustring and repl :: "ustring \<Rightarrow> error + ustring" and c :: nat and cs :: ustring
  show "((tag, repl, cs), (tag, repl, c # cs)) \<in> measure (\<lambda>(tag, repl, s). length s)"
    by simp
next
  fix tag :: ustring and repl :: "ustring \<Rightarrow> error + ustring" and c :: nat
    and cs g rest new :: ustring and x2 :: "ustring \<times> ustring"
  assume m: "match_coord tag (c # cs) = Some x2" "(g, rest) = x2"
  from m obtain s1 s2 where
    s1: "s1 = drop (length (open_tag tag)) (c # cs)" and
    s2: "match_signed s1 = Some (g, s2)" and
    r: "rest = drop (length (close_tag tag)) s2"
    by (auto simp: match_coord_def match_lit_def split: option.splits if_splits)
  have "length s1 \<le> length cs"
    by (simp add: s1 open_tag_def ustr_def)
  moreover have "length s2 \<le> length s1"
    using s2 length_dropWhile_le [of is_digit s1] length_dropWhile_le [of is_digit "tl s1"]
    by (cases s1) (auto simp: match_signed_def match_digits_def split: option.splits if_splits)
  moreover have "length rest \<le> length s2"
    by (simp add: r)
  ultimately show "((tag, repl, rest), (tag, repl, c # cs)) \<in> measure (\<lambda>(tag, repl, s). length s)"
    by simp
qed

text \<open>The callbacks of \<^verbatim>\<open>transform_xml_content\<close>, on group 1 of the match.\<close>

definition replace_x_coord :: "ustring \<Rightarrow> error + ustring" where
  "replace_x_coord group1 =
     (case py_int group1 of
        Inl e \<Rightarrow> Inl e
      | Inr v \<Rightarrow>
          (let new_value = transform_coordinate v
           in case py_str new_value of
                Inl e \<Rightarrow> Inl e
              | Inr text \<Rightarrow> Inr (ustr ''<X_COORD>'' @ text @ ustr ''</X_COORD>'')))"

definition replace_y_coord :: "ustring \<Rightarrow> error + ustring" where
  "replace_y_coord group1 =
     (case py_int group1 of
        Inl e \<Rightarrow> Inl e
      | Inr v \<Rightarrow>
          (let new_value = transform_coordinate v
           in case py_str new_value of
                Inl e \<Rightarrow> Inl e
              | Inr text \<Rightarrow> Inr (ustr ''<Y_COORD>'' @ text @ ustr ''</Y_COORD>'')))"

definition transform_xml_content :: "ustring \<Rightarrow> error + ustring" where
  "transform_xml_content content =
     (case re_sub_coord (ustr ''X_COORD'') replace_x_coord content of
        Inl e \<Rightarrow> Inl e
      | Inr content1 \<Rightarrow> re_sub_coord (ustr ''Y_COORD'') replace_y_coord content1)"

text \<open>The content rewriter applied to its own result.\<close>

definition rewrite_twice :: "ustring \<Rightarrow> error + ustring" where
  "rewrite_twice s =
     (case transform_xml_content s of
        Inl e \<Rightarrow> Inl e
      | Inr s1 \<Rightarrow> transform_xml_content s1)"

section \<open>The filename rewriter\<close>

text \<open>
  The pattern \<^verbatim>\<open>(-\d+)(-\d+)(\.xml)$\<close> at the start of \<open>s\<close>: the three groups.
\<close>

definition match_filename :: "ustring \<Rightarrow> (ustring \<times> ustring \<times> ustring) option" where
  "match_filename s =
     (case match_dash_digits s of
        None \<Rightarrow> None
      | Some (g1, s1) \<Rightarrow>
          (case match_dash_digits s1 of
             None \<Rightarrow> None
           | Some (g2, s2) \<Rightarrow>
               (case match_lit (ustr ''.xml'') s2 of
                  None \<Rightarrow> None
                | Some s3 \<Rightarrow> if at_end s3 then Some (g1, g2, ustr ''.xml'') else None)))"

text \<open>
  \<^verbatim>\<open>re.search\<close>: the first position, from the left, at which the pattern matches,
  with the groups of the match there.
\<close>

fun re_search_filename :: "ustring \<Rightarrow> (nat \<times> ustring \<times> ustring \<times> ustring) option" where
  "re_search_filename [] =
     (case match_filename [] of None \<Rightarrow> None | Some g \<Rightarrow> Some (0, g))"
| "re_search_filename (c # cs) =
     (case match_filename (c # cs) of
        Some g \<Rightarrow> Some (0, g)
      | None \<Rightarrow>
          (case re_search_filename cs of
             None \<Rightarrow> None
           | Some (start, g) \<Rightarrow> Some (Suc start, g)))"

definition transform_filename :: "ustring \<Rightarrow> error + ustring" where
  "transform_filename filename =
     (case re_search_filename filename of
        Some (start, x_str, y_str, extension) \<Rightarrow>
          (case py_int (drop 1 x_str) of
             Inl e \<Rightarrow> Inl e
           | Inr x_value \<Rightarrow>
               (case py_int (drop 1 y_str) of
                  Inl e \<Rightarrow> Inl e
                | Inr y_value \<Rightarrow>
                    (let new_x = transform_coordinate x_value;
                         new_y = transform_coordinate y_value;
                         base_name = take start filename
                     in case format_03d new_x of
                          Inl e \<Rightarrow> Inl e
                        | Inr fx \<Rightarrow>
                            (case format_03d new_y of
                               Inl e \<Rightarrow> Inl e
                             | Inr fy \<Rightarrow>
                                 Inr (base_name @ ustr ''-'' @ fx @ ustr ''-'' @ fy
                                      @ extension)))))
      | None \<Rightarrow> Inr filename)"

text \<open>The filename rewriter applied to its own result.\<close>

definition rename_twice :: "ustring \<Rightarrow> error + ustring" where
  "rename_twice name =
     (case transform_filename name of
        Inl e \<Rightarrow> Inl e
      | Inr name1 \<Rightarrow> transform_filename name1)"

section \<open>The batch driver\<close>

text \<open>
  The file system and the console are explicit. \<open>mkdir_error\<close> is the exception
  of \<^verbatim>\<open>output_path.mkdir\<close>, if it raises; \<open>glob_xml\<close> is the list of names that
  \<^verbatim>\<open>input_path.glob("*.xml")\<close> returns; \<open>read_text\<close> gives, for a name of the input
  directory, the decoded text or the exception of reading it; \<open>out_files\<close> is the
  content of the output directory. \<open>write_fault\<close> gives, for a name of the output
  directory, what goes wrong when it is written, if anything: the file cannot be
  opened, and the directory stays as it was, or the file is opened, which creates
  or empties it, and the exception comes after the first \<open>n\<close> characters of the
  text have reached it. \<^verbatim>\<open>print\<close> appends a message to \<open>console\<close>.
\<close>

datatype message =
    NoFilesFound ustring
  | FilesFound nat
  | Converted ustring ustring
  | Failed ustring error
  | Completed ustring

datatype fault = OpenFails error | WriteFails error nat

fun fault_error :: "fault \<Rightarrow> error" where
  "fault_error (OpenFails e) = e"
| "fault_error (WriteFails e n) = e"

record world =
  mkdir_error :: "error option"
  glob_xml :: "ustring list"
  read_text :: "ustring \<Rightarrow> error + ustring"
  write_fault :: "ustring \<Rightarrow> fault option"
  out_files :: "ustring \<rightharpoonup> ustring"
  console :: "message list"

definition print :: "message \<Rightarrow> world \<Rightarrow> world" where
  "print m w = w\<lparr>console := console w @ [m]\<rparr>"

text \<open>
  \<^verbatim>\<open>output_file.write_text\<close>: the exception, if one is raised, and the world after
  the call.
\<close>

definition write_text :: "ustring \<Rightarrow> ustring \<Rightarrow> world \<Rightarrow> error option \<times> world" where
  "write_text name content w =
     (case write_fault w name of
        None \<Rightarrow> (None, w\<lparr>out_files := (out_files w)(name \<mapsto> content)\<rparr>)
      | Some (OpenFails e) \<Rightarrow> (Some e, w)
      | Some (WriteFails e n) \<Rightarrow>
          (Some e, w\<lparr>out_files := (out_files w)(name \<mapsto> take n content)\<rparr>))"

text \<open>The body of the loop: the \<^verbatim>\<open>try\<close> block and its \<^verbatim>\<open>except Exception\<close> handler.\<close>

definition process_file :: "ustring \<Rightarrow> world \<Rightarrow> world" where
  "process_file name w =
     (case read_text w name of
        Inl e \<Rightarrow> print (Failed name e) w
      | Inr content \<Rightarrow>
          (case transform_xml_content content of
             Inl e \<Rightarrow> print (Failed name e) w
           | Inr new_content \<Rightarrow>
               (case transform_filename name of
                  Inl e \<Rightarrow> print (Failed name e) w
                | Inr new_filename \<Rightarrow>
                    (case write_text new_filename new_content w of
                       (Some e, w1) \<Rightarrow> print (Failed name e) w1
                     | (None, w1) \<Rightarrow> print (Converted name new_filename) w1))))"



section \<open>The specification's view of content and file names\<close>

text \<open>
  A run of digits is not empty. A numeral of the content is an optional dash and a
  run of digits; its value is the integer it denotes, and \<open>digit_count\<close> is the
  number of its digits. A numeral is convertible when neither reading it nor
  writing its transformed value exceeds the limit of the interpreter. It is
  canonical when its digits are those of ASCII and it has no leading zero and no
  sign on zero.
\<close>

definition all_digits :: "ustring \<Rightarrow> bool" where
  "all_digits ds = (ds \<noteq> [] \<and> list_all is_digit ds)"

definition is_numeral :: "ustring \<Rightarrow> bool" where
  "is_numeral g =
     (case g of
        [] \<Rightarrow> False
      | c # cs \<Rightarrow> if c = cp (CHR ''-'') then all_digits cs else all_digits g)"

definition numeral_value :: "ustring \<Rightarrow> int" where
  "numeral_value g =
     (case g of
        [] \<Rightarrow> 0
      | c # cs \<Rightarrow> if c = cp (CHR ''-'') then - int (dec_val cs) else int (dec_val g))"

definition digit_count :: "ustring \<Rightarrow> nat" where
  "digit_count g = length (filter is_digit g)"

definition convertible :: "ustring \<Rightarrow> bool" where
  "convertible g =
     (digit_count g \<le> max_str_digits
      \<and> length (dec_str (nat \<bar>transform_coordinate (numeral_value g)\<bar>)) \<le> max_str_digits)"

definition canonical :: "ustring \<Rightarrow> bool" where
  "canonical g =
     (case g of
        [] \<Rightarrow> False
      | c # cs \<Rightarrow>
          if c = cp (CHR ''-'')
          then cs \<noteq> [] \<and> list_all is_ascii_digit cs \<and> hd cs \<noteq> cp (CHR ''0'')
          else list_all is_ascii_digit g \<and> (c \<noteq> cp (CHR ''0'') \<or> cs = []))"

text \<open>
  The content as a sequence of segments: a tagged numeral, for one of the tag
  names of \<open>tags\<close>, or a single character at which no tagged numeral starts. The
  sequence is read off from the left, a tagged numeral taking precedence.
\<close>

datatype segment = Plain nat | Field ustring ustring

definition coord_tags :: "ustring list" where
  "coord_tags = [ustr ''X_COORD'', ustr ''Y_COORD'']"

fun field_at :: "ustring list \<Rightarrow> ustring \<Rightarrow> (ustring \<times> ustring \<times> ustring) option" where
  "field_at [] s = None"
| "field_at (t # ts) s =
     (case match_coord t s of
        Some (g, rest) \<Rightarrow> Some (t, g, rest)
      | None \<Rightarrow> field_at ts s)"

function segments :: "ustring list \<Rightarrow> ustring \<Rightarrow> segment list" where
  "segments tags [] = []"
| "segments tags (c # cs) =
     (case field_at tags (c # cs) of
        None \<Rightarrow> Plain c # segments tags cs
      | Some (t, g, rest) \<Rightarrow> Field t g # segments tags rest)"
  by pat_completeness auto
termination
proof (relation "measure (\<lambda>(tags, s). length s)")
  show "wf (measure (\<lambda>(tags, s). length s))"
    by simp
next
  fix tags :: "ustring list" and c :: nat and cs :: ustring
  show "((tags, cs), (tags, c # cs)) \<in> measure (\<lambda>(tags, s). length s)"
    by simp
next
  fix tags :: "ustring list" and c :: nat and cs t g rest :: ustring
    and x2 :: "ustring \<times> ustring \<times> ustring" and y :: "ustring \<times> ustring"
  assume f: "field_at tags (c # cs) = Some x2" "(t, y) = x2" "(g, rest) = y"
  have "field_at tags (c # cs) = Some (t, g, rest) \<Longrightarrow> match_coord t (c # cs) = Some (g, rest)"
    by (induction tags) (auto split: option.splits)
  with f have m: "match_coord t (c # cs) = Some (g, rest)"
    by auto
  from m obtain s1 s2 where
    s1: "s1 = drop (length (open_tag t)) (c # cs)" and
    s2: "match_signed s1 = Some (g, s2)" and
    r: "rest = drop (length (close_tag t)) s2"
    by (auto simp: match_coord_def match_lit_def split: option.splits if_splits)
  have "length s1 \<le> length cs"
    by (simp add: s1 open_tag_def ustr_def)
  moreover have "length s2 \<le> length s1"
    using s2 length_dropWhile_le [of is_digit s1] length_dropWhile_le [of is_digit "tl s1"]
    by (cases s1) (auto simp: match_signed_def match_digits_def split: option.splits if_splits)
  moreover have "length rest \<le> length s2"
    by (simp add: r)
  ultimately show "((tags, rest), (tags, c # cs)) \<in> measure (\<lambda>(tags, s). length s)"
    by simp
qed

text \<open>A segment as it stands in the content, and as the rewriter leaves it.\<close>

fun original :: "segment \<Rightarrow> ustring" where
  "original (Plain c) = [c]"
| "original (Field t g) = open_tag t @ g @ close_tag t"

fun rewritten :: "segment \<Rightarrow> ustring" where
  "rewritten (Plain c) = [c]"
| "rewritten (Field t g) =
     open_tag t @ dec_int (transform_coordinate (numeral_value g)) @ close_tag t"

fun well_formed :: "segment \<Rightarrow> bool" where
  "well_formed (Plain c) = True"
| "well_formed (Field t g) = (t \<in> set coord_tags \<and> is_numeral g)"

fun convertible_segment :: "segment \<Rightarrow> bool" where
  "convertible_segment (Plain c) = True"
| "convertible_segment (Field t g) = convertible g"

fun canonical_segment :: "segment \<Rightarrow> bool" where
  "canonical_segment (Plain c) = True"
| "canonical_segment (Field t g) = canonical g"

text \<open>The content with every segment as the rewriter leaves it.\<close>

definition rewrite_segments :: "ustring list \<Rightarrow> ustring \<Rightarrow> ustring" where
  "rewrite_segments tags s = concat (map rewritten (segments tags s))"

text \<open>Every tagged numeral of the content is convertible.\<close>

definition convertible_content :: "ustring list \<Rightarrow> ustring \<Rightarrow> bool" where
  "convertible_content tags s = list_all convertible_segment (segments tags s)"

text \<open>Tag names that are not empty, do not start with a slash and hold no \<open><\<close>.\<close>

definition plain_tags :: "ustring list \<Rightarrow> bool" where
  "plain_tags tags =
     (\<forall>t\<in>set tags. t \<noteq> [] \<and> hd t \<noteq> cp (CHR ''/'') \<and> cp (CHR ''<'') \<notin> set t)"

text \<open>
  No tagged numeral, of either tag name, starts at a position of \<open>s\<close> before \<open>n\<close>.
\<close>

definition no_field_before :: "nat \<Rightarrow> ustring \<Rightarrow> bool" where
  "no_field_before n s =
     list_all (\<lambda>i. match_coord (ustr ''X_COORD'') (drop i s) = None
                   \<and> match_coord (ustr ''Y_COORD'') (drop i s) = None) [0..<n]"

text \<open>
  A file name that ends in a dash, a run of digits, a dash, a run of digits and
  \<^verbatim>\<open>.xml\<close>.
\<close>

definition ends_with_coords :: "ustring \<Rightarrow> bool" where
  "ends_with_coords name =
     (\<exists>p d1 d2. name = p @ ustr ''-'' @ d1 @ ustr ''-'' @ d2 @ ustr ''.xml''
        \<and> all_digits d1 \<and> all_digits d2)"

text \<open>
  The field of a negative result \<open>25 - m\<close>, for a magnitude \<open>m\<close> above 25: the sign,
  then \<open>m - 25\<close> filled with zeros up to two digits.
\<close>

definition signed_field :: "nat \<Rightarrow> ustring" where
  "signed_field m =
     cp (CHR ''-'') # replicate (2 - length (dec_str (m - 25))) (cp (CHR ''0''))
       @ dec_str (m - 25)"

text \<open>
  The line that the batch driver prints for one file: the success line with the old
  and the new name, or the failure line with the name of the file and the exception
  of the first step that raises.
\<close>

definition outcome :: "world \<Rightarrow> ustring \<Rightarrow> message" where
  "outcome w name =
     (case read_text w name of
        Inl e \<Rightarrow> Failed name e
      | Inr content \<Rightarrow>
          (case transform_xml_content content of
             Inl e \<Rightarrow> Failed name e
           | Inr new_content \<Rightarrow>
               (case transform_filename name of
                  Inl e \<Rightarrow> Failed name e
                | Inr new_filename \<Rightarrow>
                    (case write_fault w new_filename of
                       Some f \<Rightarrow> Failed name (fault_error f)
                     | None \<Rightarrow> Converted name new_filename))))"

text \<open>
  The batch scenario of the specification: two files that are read and one whose
  reading raises, an empty output directory and an empty console.
\<close>

definition scenario :: world where
  "scenario =
     \<lparr>mkdir_error = None,
      glob_xml = [ustr ''a-023-010.xml'', ustr ''bad.xml'', ustr ''c.xml''],
      read_text = (\<lambda>name. if name = ustr ''bad.xml'' then Inl (OSError ''denied'')
                           else Inr (ustr ''<X_COORD>23</X_COORD>'')),
      write_fault = (\<lambda>name. None),
      out_files = Map.empty,
      console = []\<rparr>"

text \<open>
  A second scenario: a file whose numeral has 4301 digits, a file whose writing
  raises after the file has been emptied, and a file that is rewritten.
\<close>

definition big_content :: ustring where
  "big_content = ustr ''<X_COORD>'' @ replicate 4301 (cp (CHR ''1'')) @ ustr ''</X_COORD>''"

definition scenario_faults :: world where
  "scenario_faults =
     \<lparr>mkdir_error = None,
      glob_xml = [ustr ''big.xml'', ustr ''full.xml'', ustr ''ok.xml''],
      read_text = (\<lambda>name. if name = ustr ''big.xml'' then Inr big_content
                           else Inr (ustr ''<Y_COORD>10</Y_COORD>'')),
      write_fault = (\<lambda>name. if name = ustr ''full.xml''
                             then Some (WriteFails (OSError ''disk full'') 0) else None),
      out_files = Map.empty,
      console = []\<rparr>"

section \<open>Digits, numerals and conversions\<close>

lemma decimal_ascii: "is_ascii_digit c \<Longrightarrow> decimal c = Some (c - 48)"
  by (simp add: decimal_def decimal_zeros_def is_ascii_digit_def)

lemma decimal_zeros_low: "list_all (\<lambda>z. z = 48 \<or> 1632 \<le> z) decimal_zeros"
  by (simp add: decimal_zeros_def)

lemma decimal_low: "c < 1632 \<Longrightarrow> \<not> is_ascii_digit c \<Longrightarrow> decimal c = None"
proof -
  assume c: "c < 1632" "\<not> is_ascii_digit c"
  have "\<not> (z \<le> c \<and> c < z + 10)" if "z \<in> set decimal_zeros" for z
  proof -
    from that decimal_zeros_low have "z = 48 \<or> 1632 \<le> z"
      by (simp add: list_all_iff)
    with c show ?thesis
      by (auto simp: is_ascii_digit_def)
  qed
  then have "find (\<lambda>z. z \<le> c \<and> c < z + 10) decimal_zeros = None"
    by (simp add: find_None_iff)
  then show ?thesis
    by (simp add: decimal_def)
qed

lemma decimal_less: "decimal c = Some d \<Longrightarrow> d < 10"
  by (auto simp: decimal_def find_Some_iff split: option.splits)

lemma is_digit_ascii: "is_ascii_digit c \<Longrightarrow> is_digit c"
  by (simp add: is_digit_def decimal_ascii)

lemma is_digit_low: "c < 1632 \<Longrightarrow> is_digit c = is_ascii_digit c"
proof (cases "is_ascii_digit c")
  case True
  then show ?thesis
    by (simp add: is_digit_ascii)
next
  case False
  assume "c < 1632"
  from decimal_low [OF this False] False show ?thesis
    by (simp add: is_digit_def)
qed

lemma is_digit_not_special [simp]:
  "\<not> is_digit 45" "\<not> is_digit 60" "\<not> is_digit 46" "\<not> is_digit 95" "\<not> is_digit 43"
  by (simp_all add: is_digit_low is_ascii_digit_def)

lemma is_digit_0 [simp]: "is_digit 48"
  by (simp add: is_digit_low is_ascii_digit_def)

lemma space_points_not_digits: "list_all (\<lambda>s. decimal s = None) space_points"
  by (simp add: space_points_def decimal_def decimal_zeros_def)

lemma is_digit_not_space: "is_digit c \<Longrightarrow> \<not> is_space c"
  using space_points_not_digits by (auto simp: is_digit_def is_space_def list_all_iff)

lemma dash_not_space [simp]: "\<not> is_space 45"
  by (simp add: is_space_def space_points_def)

lemma is_ascii_digit_digit_char: "d < 10 \<Longrightarrow> is_ascii_digit (digit_char d)"
  by (simp add: is_ascii_digit_def digit_char_def)

lemma is_digit_digit_char: "d < 10 \<Longrightarrow> is_digit (digit_char d)"
  by (simp add: is_digit_ascii is_ascii_digit_digit_char)

lemma digit_val_ascii: "is_ascii_digit c \<Longrightarrow> digit_val c = c - 48"
  by (simp add: digit_val_def decimal_ascii)

lemma digit_val_digit_char: "d < 10 \<Longrightarrow> digit_val (digit_char d) = d"
  using digit_val_ascii [OF is_ascii_digit_digit_char, of d] by (simp add: digit_char_def)

lemma digit_char_digit_val: "is_ascii_digit c \<Longrightarrow> digit_char (digit_val c) = c"
  by (simp add: digit_val_ascii digit_char_def is_ascii_digit_def)

lemma digit_val_less: "digit_val c < 10"
  by (auto simp: digit_val_def split: option.splits dest: decimal_less)

lemma dec_val_Nil [simp]: "dec_val [] = 0"
  by (simp add: dec_val_def)

lemma dec_val_snoc [simp]: "dec_val (ds @ [c]) = 10 * dec_val ds + digit_val c"
  by (simp add: dec_val_def)

lemma dec_val_single [simp]: "dec_val [c] = digit_val c"
  by (simp add: dec_val_def)

lemma dec_val_bound: "dec_val ds < 10 ^ length ds"
proof (induction ds rule: rev_induct)
  case Nil
  show ?case by simp
next
  case (snoc c xs)
  from snoc have "10 * dec_val xs + 10 \<le> 10 * 10 ^ length xs"
    by simp
  with digit_val_less [of c] show ?case
    by simp
qed

lemma dec_str_nonempty [simp]: "dec_str n \<noteq> []"
  by (subst dec_str.simps) simp

lemma dec_str_ascii [simp]: "list_all is_ascii_digit (dec_str n)"
proof (induction n rule: dec_str.induct)
  case (1 n)
  show ?case
  proof (cases "n < 10")
    case True
    then show ?thesis
      by (subst dec_str.simps) (simp add: is_ascii_digit_digit_char)
  next
    case False
    with 1 show ?thesis
      by (subst dec_str.simps) (simp add: is_ascii_digit_digit_char)
  qed
qed

lemma list_all_ascii_digit: "list_all is_ascii_digit ds \<Longrightarrow> list_all is_digit ds"
  by (induction ds) (auto simp: is_digit_ascii)

lemma dec_str_digits [simp]: "list_all is_digit (dec_str n)"
  by (rule list_all_ascii_digit) simp

lemma dec_val_dec_str [simp]: "dec_val (dec_str n) = n"
proof (induction n rule: dec_str.induct)
  case (1 n)
  show ?case
  proof (cases "n < 10")
    case True
    then have "dec_val (dec_str n) = dec_val ([] @ [digit_char n])"
      by (subst dec_str.simps) simp
    also have "\<dots> = n"
      using True by (simp only: dec_val_snoc) (simp add: digit_val_digit_char)
    finally show ?thesis .
  next
    case False
    with 1 show ?thesis
      by (subst dec_str.simps) (simp add: digit_val_digit_char)
  qed
qed

lemma digit_val_0 [simp]: "digit_val 48 = 0"
  by (simp add: digit_val_ascii is_ascii_digit_def)

lemma dec_val_zeros [simp]: "dec_val (replicate k 48 @ ds) = dec_val ds"
proof -
  have "foldl (\<lambda>a c. 10 * a + digit_val c) 0 (replicate k 48) = 0"
    by (induction k) simp_all
  then show ?thesis
    by (simp add: dec_val_def)
qed

lemma length_dec_str_le: "n < 10 ^ k \<Longrightarrow> 0 < k \<Longrightarrow> length (dec_str n) \<le> k"
proof (induction n arbitrary: k rule: dec_str.induct)
  case (1 n)
  show ?case
  proof (cases "n < 10")
    case True
    with 1(3) show ?thesis
      by (subst dec_str.simps) simp
  next
    case False
    then obtain j where k: "k = Suc j"
      using 1(3) by (cases k) auto
    from False 1(2) k have "0 < j"
      by (cases j) auto
    moreover from 1(2) k have "n div 10 < 10 ^ j"
      by (simp add: less_mult_imp_div_less mult.commute)
    ultimately have "length (dec_str (n div 10)) \<le> j"
      using 1(1) False by blast
    with False k show ?thesis
      by (subst dec_str.simps) simp
  qed
qed

lemma length_dec_str_gt: "10 ^ k \<le> n \<Longrightarrow> k < length (dec_str n)"
proof (induction n arbitrary: k rule: dec_str.induct)
  case (1 n)
  show ?case
  proof (cases k)
    case 0
    then show ?thesis
      using dec_str_nonempty [of n] by (cases "dec_str n") auto
  next
    case (Suc j)
    with 1(2) have n: "\<not> n < 10" and "10 * 10 ^ j \<le> n"
      by (auto simp: not_less intro: order_trans [of 10 "10 * 10 ^ j" n])
    then have "10 ^ j \<le> n div 10"
      by (simp add: less_eq_div_iff_mult_less_eq mult.commute)
    with 1(1) n have "j < length (dec_str (n div 10))"
      by blast
    with n Suc show ?thesis
      by (subst dec_str.simps) simp
  qed
qed

text \<open>The decimal string of the value of a run of digits is not longer than the run.\<close>

lemma length_dec_str_dec_val: "ds \<noteq> [] \<Longrightarrow> length (dec_str (dec_val ds)) \<le> length ds"
  by (rule length_dec_str_le) (simp_all add: dec_val_bound)

lemma strip_id: "s \<noteq> [] \<Longrightarrow> \<not> is_space (hd s) \<Longrightarrow> \<not> is_space (last s) \<Longrightarrow> strip s = s"
proof -
  assume a: "s \<noteq> []" "\<not> is_space (hd s)" "\<not> is_space (last s)"
  then have "dropWhile is_space s = s"
    by (cases s) auto
  moreover have "dropWhile is_space (rev s) = rev s"
    using a by (cases "rev s") (auto simp: last_rev [symmetric] hd_rev simp del: last_rev)
  ultimately show ?thesis
    by (simp add: strip_def)
qed

lemma int_body_ok_digits: "list_all is_digit ds \<Longrightarrow> int_body_ok p ds = (p \<or> ds \<noteq> [])"
  by (induction ds arbitrary: p) auto

lemma filter_digits: "list_all is_digit ds \<Longrightarrow> filter is_digit ds = ds"
  by (induction ds) auto

lemma all_digits_Nil [simp]: "\<not> all_digits []"
  by (simp add: all_digits_def)

lemma all_digits_Cons: "all_digits (c # cs) \<Longrightarrow> is_digit c"
  by (simp add: all_digits_def)

lemma all_digits_not_dash: "all_digits (c # cs) \<Longrightarrow> c \<noteq> 45"
proof
  assume "all_digits (c # cs)" "c = 45"
  then have "is_digit 45"
    by (simp add: all_digits_def)
  then show False
    by simp
qed

lemma all_digits_last: "all_digits ds \<Longrightarrow> is_digit (last ds)"
  by (induction ds) (auto simp: all_digits_def)

lemma int_body_digits:
  "all_digits ds \<Longrightarrow>
   int_body ds = (if max_str_digits < length ds then Inl ValueError else Inr (dec_val ds))"
  by (simp add: int_body_def all_digits_def int_body_ok_digits filter_digits)

lemma py_int_digits:
  "all_digits ds \<Longrightarrow>
   py_int ds = (if max_str_digits < length ds then Inl ValueError
                else Inr (int (dec_val ds)))"
proof -
  assume d: "all_digits ds"
  then obtain c cs where s: "ds = c # cs" and c: "is_digit c"
    by (cases ds) (auto simp: all_digits_def)
  have "strip ds = ds"
    using d s c all_digits_last [OF d] by (intro strip_id) (auto simp: is_digit_not_space)
  moreover have "c \<noteq> 45" "c \<noteq> 43"
    using c by auto
  ultimately show ?thesis
    using int_body_digits [OF d] by (simp add: py_int_def s)
qed

lemma py_int_neg_digits:
  "all_digits ds \<Longrightarrow>
   py_int (45 # ds) = (if max_str_digits < length ds then Inl ValueError
                       else Inr (- int (dec_val ds)))"
proof -
  assume d: "all_digits ds"
  then have ne: "ds \<noteq> []"
    by (simp add: all_digits_def)
  have "strip (45 # ds) = 45 # ds"
    using ne all_digits_last [OF d] by (intro strip_id) (auto simp: is_digit_not_space)
  then show ?thesis
    using int_body_digits [OF d] by (simp add: py_int_def)
qed

lemma is_numeral_cases:
  "is_numeral g \<longleftrightarrow> all_digits g \<or> (\<exists>ds. g = 45 # ds \<and> all_digits ds)"
  by (cases g) (auto simp: is_numeral_def dest: all_digits_not_dash)

lemma digit_count_digits: "all_digits ds \<Longrightarrow> digit_count ds = length ds"
  by (simp add: digit_count_def all_digits_def filter_digits)

lemma digit_count_neg: "all_digits ds \<Longrightarrow> digit_count (45 # ds) = length ds"
  by (simp add: digit_count_def all_digits_def filter_digits)

text \<open>\<^verbatim>\<open>int\<close> on a numeral raises exactly when the numeral has too many digits.\<close>

lemma py_int_numeral:
  "is_numeral g \<Longrightarrow>
   py_int g = (if max_str_digits < digit_count g then Inl ValueError
               else Inr (numeral_value g))"
  unfolding is_numeral_cases
proof (elim disjE exE conjE)
  assume d: "all_digits g"
  then obtain c cs where g: "g = c # cs" and c: "c \<noteq> 45"
    by (cases g) (auto dest: all_digits_not_dash)
  with d show ?thesis
    by (simp add: py_int_digits numeral_value_def digit_count_digits)
next
  fix ds assume "g = 45 # ds" "all_digits ds"
  then show ?thesis
    by (simp add: py_int_neg_digits numeral_value_def digit_count_neg)
qed

lemma all_digits_dec_str [simp]: "all_digits (dec_str n)"
  by (simp add: all_digits_def)

lemma is_numeral_dec_int [simp]: "is_numeral (dec_int v)"
  by (auto simp: is_numeral_cases dec_int_def)

lemma hd_dec_str_not_dash: "dec_str n = c # cs \<Longrightarrow> c \<noteq> 45"
  using dec_str_digits [of n] by auto

lemma numeral_value_dec_int [simp]: "numeral_value (dec_int v) = v"
proof (cases "v < 0")
  case True
  then show ?thesis
    by (simp add: dec_int_def numeral_value_def)
next
  case False
  obtain c cs where s: "dec_str (nat v) = c # cs"
    by (cases "dec_str (nat v)") auto
  have "dec_val (c # cs) = nat v"
    using dec_val_dec_str [of "nat v"] by (simp add: s)
  with False hd_dec_str_not_dash [OF s] show ?thesis
    by (simp add: dec_int_def numeral_value_def s)
qed

lemma digit_count_dec_int [simp]: "digit_count (dec_int v) = length (dec_str (nat \<bar>v\<bar>))"
proof (cases "v < 0")
  case True
  then have "nat \<bar>v\<bar> = nat (- v)"
    by simp
  with True show ?thesis
    by (simp add: dec_int_def digit_count_neg)
next
  case False
  then show ?thesis
    by (simp add: dec_int_def digit_count_digits)
qed

lemma all_digits_no_lt: "all_digits ds \<Longrightarrow> 60 \<notin> set ds"
proof
  assume "all_digits ds" "60 \<in> set ds"
  then have "is_digit 60"
    unfolding all_digits_def list_all_iff by blast
  then show False
    by simp
qed

lemma numeral_no_lt: "is_numeral g \<Longrightarrow> 60 \<notin> set g"
  by (auto simp: is_numeral_cases dest: all_digits_no_lt)

section \<open>What the matchers find\<close>

lemma match_lit_iff: "match_lit lit s = Some r \<longleftrightarrow> s = lit @ r"
proof
  assume "match_lit lit s = Some r"
  then have "take (length lit) s = lit" "r = drop (length lit) s"
    by (auto simp: match_lit_def split: if_splits)
  then show "s = lit @ r"
    by (metis append_take_drop_id)
next
  assume "s = lit @ r"
  then show "match_lit lit s = Some r"
    by (simp add: match_lit_def)
qed

lemma match_lit_append [simp]: "match_lit lit (lit @ r) = Some r"
  by (simp add: match_lit_iff)

lemma match_digits_iff:
  "match_digits s = Some (ds, r) \<longleftrightarrow>
     all_digits ds \<and> s = ds @ r \<and> (r = [] \<or> \<not> is_digit (hd r))"
proof
  assume "match_digits s = Some (ds, r)"
  then have d: "ds = takeWhile is_digit s" "r = dropWhile is_digit s" "ds \<noteq> []"
    by (auto simp: match_digits_def split: if_splits)
  have "list_all is_digit (takeWhile is_digit s)"
    by (simp add: list_all_iff) (meson set_takeWhileD)
  moreover have "dropWhile is_digit s = [] \<or> \<not> is_digit (hd (dropWhile is_digit s))"
    using hd_dropWhile [of is_digit s] by blast
  ultimately show "all_digits ds \<and> s = ds @ r \<and> (r = [] \<or> \<not> is_digit (hd r))"
    using d by (simp add: all_digits_def)
next
  assume a: "all_digits ds \<and> s = ds @ r \<and> (r = [] \<or> \<not> is_digit (hd r))"
  then have all: "\<forall>x\<in>set ds. is_digit x" and ne: "ds \<noteq> []"
    by (auto simp: all_digits_def list_all_iff)
  have "takeWhile is_digit (ds @ r) = ds"
    using a all by (cases r) (auto simp: takeWhile_append2)
  moreover have "dropWhile is_digit (ds @ r) = r"
    using a all by (cases r) (auto simp: dropWhile_append2)
  ultimately show "match_digits s = Some (ds, r)"
    using a ne by (simp add: match_digits_def)
qed

lemma match_signed_iff:
  "match_signed s = Some (g, r) \<longleftrightarrow>
     is_numeral g \<and> s = g @ r \<and> (r = [] \<or> \<not> is_digit (hd r))"
proof (cases s)
  case Nil
  then show ?thesis
    by (auto simp: match_signed_def is_numeral_def)
next
  case (Cons c cs)
  show ?thesis
  proof (cases "c = 45")
    case True
    have "match_signed s = Some (g, r) \<longleftrightarrow>
            (\<exists>ds. g = 45 # ds \<and> match_digits cs = Some (ds, r))"
      using True Cons by (auto simp: match_signed_def split: option.splits)
    also have "\<dots> \<longleftrightarrow> (\<exists>ds. g = 45 # ds \<and> all_digits ds \<and> cs = ds @ r
                            \<and> (r = [] \<or> \<not> is_digit (hd r)))"
      by (simp add: match_digits_iff)
    also have "\<dots> \<longleftrightarrow> is_numeral g \<and> s = g @ r \<and> (r = [] \<or> \<not> is_digit (hd r))"
      using True Cons
      by (cases g) (auto simp: is_numeral_cases dest: all_digits_not_dash)
    finally show ?thesis .
  next
    case False
    have "match_signed s = Some (g, r) \<longleftrightarrow> match_digits s = Some (g, r)"
      using False Cons by (simp add: match_signed_def)
    also have "\<dots> \<longleftrightarrow> all_digits g \<and> s = g @ r \<and> (r = [] \<or> \<not> is_digit (hd r))"
      by (simp add: match_digits_iff)
    also have "\<dots> \<longleftrightarrow> is_numeral g \<and> s = g @ r \<and> (r = [] \<or> \<not> is_digit (hd r))"
      using False Cons by (cases g) (auto simp: is_numeral_cases)
    finally show ?thesis .
  qed
qed

lemma match_dash_digits_iff:
  "match_dash_digits s = Some (g, r) \<longleftrightarrow>
     (\<exists>ds. g = 45 # ds \<and> all_digits ds \<and> s = g @ r \<and> (r = [] \<or> \<not> is_digit (hd r)))"
proof (cases s)
  case Nil
  then show ?thesis
    by (auto simp: match_dash_digits_def)
next
  case (Cons c cs)
  show ?thesis
  proof (cases "c = 45")
    case True
    have "match_dash_digits s = Some (g, r) \<longleftrightarrow>
            (\<exists>ds. g = 45 # ds \<and> match_digits cs = Some (ds, r))"
      using True Cons by (auto simp: match_dash_digits_def split: option.splits)
    also have "\<dots> \<longleftrightarrow> (\<exists>ds. g = 45 # ds \<and> all_digits ds \<and> cs = ds @ r
                            \<and> (r = [] \<or> \<not> is_digit (hd r)))"
      by (simp add: match_digits_iff)
    also have "\<dots> \<longleftrightarrow> (\<exists>ds. g = 45 # ds \<and> all_digits ds \<and> s = g @ r
                            \<and> (r = [] \<or> \<not> is_digit (hd r)))"
      using True Cons by auto
    finally show ?thesis .
  next
    case False
    with Cons show ?thesis
      by (auto simp: match_dash_digits_def)
  qed
qed

lemma open_tag_Cons: "open_tag t = 60 # t @ [62]"
  by (simp add: open_tag_def ustr_def)

lemma close_tag_Cons: "close_tag t = 60 # 47 # t @ [62]"
  by (simp add: close_tag_def ustr_def)

text \<open>
  The matcher finds exactly the strings of the pattern: an opening tag, a numeral
  and the closing tag.
\<close>

lemma match_coord_iff:
  "match_coord t s = Some (g, rest) \<longleftrightarrow>
     is_numeral g \<and> s = open_tag t @ g @ close_tag t @ rest"
proof
  assume "match_coord t s = Some (g, rest)"
  then obtain s1 s2 where
    "match_lit (open_tag t) s = Some s1" "match_signed s1 = Some (g, s2)"
    "match_lit (close_tag t) s2 = Some rest"
    by (auto simp: match_coord_def split: option.splits)
  then show "is_numeral g \<and> s = open_tag t @ g @ close_tag t @ rest"
    by (simp add: match_lit_iff match_signed_iff)
next
  assume a: "is_numeral g \<and> s = open_tag t @ g @ close_tag t @ rest"
  have "match_signed (g @ close_tag t @ rest) = Some (g, close_tag t @ rest)"
    using a by (simp add: match_signed_iff close_tag_Cons)
  with a show "match_coord t s = Some (g, rest)"
    by (simp add: match_coord_def)
qed

lemma match_coord_not_lt: "c \<noteq> 60 \<Longrightarrow> match_coord t (c # cs) = None"
  by (cases "match_coord t (c # cs)") (auto simp: match_coord_iff open_tag_Cons)

lemma match_coord_Nil [simp]: "match_coord t [] = None"
  by (cases "match_coord t []") (auto simp: match_coord_iff open_tag_Cons)

lemma match_coord_length:
  "match_coord t s = Some (g, rest) \<Longrightarrow> length rest < length s"
  by (simp add: match_coord_iff open_tag_Cons)

lemma field_at_Some:
  "field_at tags s = Some (t, g, rest) \<Longrightarrow> t \<in> set tags \<and> match_coord t s = Some (g, rest)"
  by (induction tags) (auto split: option.splits)

lemma field_at_None: "field_at tags s = None \<longleftrightarrow> (\<forall>t\<in>set tags. match_coord t s = None)"
  by (induction tags) (auto split: option.splits)

lemma field_at_not_lt: "c \<noteq> 60 \<Longrightarrow> field_at tags (c # cs) = None"
  by (simp add: field_at_None match_coord_not_lt)

lemma field_at_Nil [simp]: "field_at tags [] = None"
  by (simp add: field_at_None)

section \<open>Segments and substitution\<close>

lemma segments_plain:
  "field_at tags (c # cs) = None \<Longrightarrow> segments tags (c # cs) = Plain c # segments tags cs"
  by simp

lemma segments_field:
  "field_at tags s = Some (t, g, rest) \<Longrightarrow> segments tags s = Field t g # segments tags rest"
  by (cases s) simp_all

lemma rewrite_segments_Nil [simp]: "rewrite_segments tags [] = []"
  by (simp add: rewrite_segments_def)

lemma convertible_content_Nil [simp]: "convertible_content tags []"
  by (simp add: convertible_content_def)

lemma rewrite_segments_plain:
  "field_at tags (c # cs) = None \<Longrightarrow>
   rewrite_segments tags (c # cs) = c # rewrite_segments tags cs"
  by (simp add: rewrite_segments_def)

lemma convertible_content_plain:
  "field_at tags (c # cs) = None \<Longrightarrow>
   convertible_content tags (c # cs) = convertible_content tags cs"
  by (simp add: convertible_content_def)

lemma rewrite_segments_field:
  "field_at tags s = Some (t, g, rest) \<Longrightarrow>
   rewrite_segments tags s =
     open_tag t @ dec_int (transform_coordinate (numeral_value g)) @ close_tag t
     @ rewrite_segments tags rest"
  by (simp add: rewrite_segments_def segments_field)

lemma convertible_content_field:
  "field_at tags s = Some (t, g, rest) \<Longrightarrow>
   convertible_content tags s = (convertible g \<and> convertible_content tags rest)"
  by (simp add: convertible_content_def segments_field)

lemma segments_original: "concat (map original (segments tags s)) = s"
proof (induction tags s rule: segments.induct)
  case (1 tags)
  show ?case by simp
next
  case (2 tags c cs)
  show ?case
  proof (cases "field_at tags (c # cs)")
    case None
    with 2 show ?thesis by simp
  next
    case (Some x)
    obtain t g rest where x: "x = (t, g, rest)"
      by (cases x) auto
    from Some x have eq: "open_tag t @ g @ close_tag t @ rest = c # cs"
      using field_at_Some [of tags "c # cs" t g rest] by (simp add: match_coord_iff)
    have "segments tags (c # cs) = Field t g # segments tags rest"
      using Some x by simp
    then have "concat (map original (segments tags (c # cs))) =
                 open_tag t @ g @ close_tag t @ rest"
      using 2(2) [OF Some [unfolded x] refl refl] by simp
    then show ?thesis
      by (simp only: eq)
  qed
qed

lemma segments_well_formed:
  "set tags \<subseteq> set coord_tags \<Longrightarrow> list_all well_formed (segments tags s)"
proof (induction tags s rule: segments.induct)
  case (1 tags)
  show ?case by simp
next
  case (2 tags c cs)
  show ?case
  proof (cases "field_at tags (c # cs)")
    case None
    with 2 show ?thesis by simp
  next
    case (Some x)
    obtain t g rest where x: "x = (t, g, rest)"
      by (cases x) auto
    from Some x have "t \<in> set tags" "is_numeral g"
      using field_at_Some [of tags "c # cs" t g rest] by (simp_all add: match_coord_iff)
    with 2(2) [OF Some [unfolded x] refl refl] 2(3) Some x show ?thesis
      by auto
  qed
qed

text \<open>
  One pass of \<^verbatim>\<open>re.sub\<close> with a callback that rewrites the convertible numerals
  and raises on the others.
\<close>

lemma re_sub_coord_segments:
  "(\<And>g. is_numeral g \<Longrightarrow>
      repl g =
        (if convertible g
         then Inr (open_tag t @ dec_int (transform_coordinate (numeral_value g)) @ close_tag t)
         else Inl ValueError)) \<Longrightarrow>
   re_sub_coord t repl s =
     (if convertible_content [t] s then Inr (rewrite_segments [t] s) else Inl ValueError)"
proof (induction t repl s rule: re_sub_coord.induct)
  case (1 tag repl)
  show ?case by simp
next
  case (2 tag repl c cs)
  show ?case
  proof (cases "match_coord tag (c # cs)")
    case None
    then have f: "field_at [tag] (c # cs) = None"
      by simp
    from None 2(1) [OF None 2(3)] show ?thesis
      by (simp add: rewrite_segments_plain [OF f] convertible_content_plain [OF f])
  next
    case (Some x)
    obtain g rest where x: "x = (g, rest)"
      by (cases x) auto
    from Some x have num: "is_numeral g"
      by (simp add: match_coord_iff)
    have f: "field_at [tag] (c # cs) = Some (tag, g, rest)"
      using Some x by simp
    note r = 2(3) [OF num]
    show ?thesis
    proof (cases "convertible g")
      case False
      with Some x r show ?thesis
        by (simp add: convertible_content_field [OF f])
    next
      case True
      with r have rg: "repl g =
          Inr (open_tag tag @ dec_int (transform_coordinate (numeral_value g)) @ close_tag tag)"
        by simp
      have "re_sub_coord tag repl rest =
              (if convertible_content [tag] rest then Inr (rewrite_segments [tag] rest)
               else Inl ValueError)"
        using 2(2) [OF Some x [symmetric] rg] 2(3) by blast
      with Some x rg True show ?thesis
        by (simp add: rewrite_segments_field [OF f] convertible_content_field [OF f])
    qed
  qed
qed

lemma segments_copy:
  "60 \<notin> set u \<Longrightarrow> segments tags (u @ s) = map Plain u @ segments tags s"
  by (induction u) (auto simp: field_at_not_lt)

lemma rewrite_segments_copy:
  "60 \<notin> set u \<Longrightarrow> rewrite_segments tags (u @ s) = u @ rewrite_segments tags s"
  by (simp add: rewrite_segments_def segments_copy comp_def)

lemma convertible_content_copy:
  "60 \<notin> set u \<Longrightarrow> convertible_content tags (u @ s) = convertible_content tags s"
  by (auto simp: convertible_content_def segments_copy list_all_iff)

text \<open>A prefix of the rewritten content without \<open><\<close> is a prefix of the content.\<close>

lemma rewrite_segments_prefix:
  "60 \<notin> set w \<Longrightarrow> rewrite_segments tags cs = w @ z \<Longrightarrow>
   \<exists>cs'. cs = w @ cs' \<and> rewrite_segments tags cs' = z"
proof (induction w arbitrary: cs z)
  case Nil
  then show ?case by simp
next
  case (Cons a w)
  from Cons.prems(2) obtain d ds where cs: "cs = d # ds"
    by (cases cs) auto
  show ?case
  proof (cases "field_at tags (d # ds)")
    case None
    with Cons.prems(2) cs have "d = a" "rewrite_segments tags ds = w @ z"
      by (simp_all add: rewrite_segments_plain)
    moreover from Cons.prems(1) have "60 \<notin> set w"
      by simp
    ultimately show ?thesis
      using Cons.IH [of ds z] cs by auto
  next
    case (Some x)
    obtain t g rest where x: "x = (t, g, rest)"
      by (cases x) auto
    from Some x Cons.prems(2) cs have "a = 60"
      by (simp add: rewrite_segments_field open_tag_Cons)
    with Cons.prems(1) show ?thesis
      by simp
  qed
qed

lemma plain_tags_iff:
  "plain_tags tags \<longleftrightarrow> (\<forall>t\<in>set tags. t \<noteq> [] \<and> hd t \<noteq> 47 \<and> 60 \<notin> set t)"
  by (simp add: plain_tags_def)

text \<open>
  A tagged numeral at the start of a character followed by rewritten content was
  there before the rewriting.
\<close>

lemma match_coord_rewritten:
  assumes tags: "plain_tags tags" and t: "60 \<notin> set t"
    and m: "match_coord t (c # rewrite_segments tags cs) = Some (g, z)"
  shows "\<exists>cs'. match_coord t (c # cs) = Some (g, cs') \<and> rewrite_segments tags cs' = z"
proof -
  from m have num: "is_numeral g"
    and eq: "c # rewrite_segments tags cs = open_tag t @ g @ close_tag t @ z"
    by (simp_all add: match_coord_iff)
  from eq have c: "c = 60"
    and r: "rewrite_segments tags cs = (t @ 62 # g) @ (close_tag t @ z)"
    by (simp_all add: open_tag_Cons)
  have "60 \<notin> set (t @ 62 # g)"
    using t numeral_no_lt [OF num] by simp
  from rewrite_segments_prefix [OF this r] obtain cs1 where
    cs: "cs = (t @ 62 # g) @ cs1" and r1: "rewrite_segments tags cs1 = close_tag t @ z"
    by blast
  from r1 obtain d ds where cs1: "cs1 = d # ds"
    by (cases cs1) (auto simp: close_tag_Cons)
  have none: "field_at tags (d # ds) = None"
  proof (cases "field_at tags (d # ds)")
    case None
    then show ?thesis .
  next
    case (Some x)
    obtain t' g' rest where x: "x = (t', g', rest)"
      by (cases x) auto
    from Some x have "t' \<in> set tags"
      using field_at_Some [of tags "d # ds" t' g' rest] by simp
    with tags obtain a u where t': "t' = a # u" "a \<noteq> 47"
      by (cases t') (auto simp: plain_tags_iff)
    from Some x r1 cs1 t' show ?thesis
      by (simp add: rewrite_segments_field open_tag_Cons close_tag_Cons)
  qed
  with r1 cs1 have d: "d = 60"
    and r2: "rewrite_segments tags ds = (47 # t @ [62]) @ z"
    by (simp_all add: rewrite_segments_plain close_tag_Cons)
  have "60 \<notin> set (47 # t @ [62])"
    using t by simp
  from rewrite_segments_prefix [OF this r2] obtain cs' where
    ds: "ds = (47 # t @ [62]) @ cs'" and r3: "rewrite_segments tags cs' = z"
    by blast
  have "c # cs = open_tag t @ g @ close_tag t @ cs'"
    by (simp add: c cs cs1 d ds open_tag_Cons close_tag_Cons)
  with num r3 show ?thesis
    by (auto simp: match_coord_iff)
qed

lemma field_at_rewritten_None:
  assumes tags: "plain_tags tags" and ts: "plain_tags ts"
    and n: "field_at ts (c # cs) = None"
  shows "field_at ts (c # rewrite_segments tags cs) = None"
proof (rule ccontr)
  assume "field_at ts (c # rewrite_segments tags cs) \<noteq> None"
  then obtain t g z where f: "field_at ts (c # rewrite_segments tags cs) = Some (t, g, z)"
    by (cases "field_at ts (c # rewrite_segments tags cs)") auto
  then have t: "t \<in> set ts" and m: "match_coord t (c # rewrite_segments tags cs) = Some (g, z)"
    using field_at_Some by blast+
  from t ts have "60 \<notin> set t"
    by (simp add: plain_tags_iff)
  from match_coord_rewritten [OF tags this m] obtain cs' where
    "match_coord t (c # cs) = Some (g, cs')"
    by blast
  with n t show False
    by (auto simp: field_at_None)
qed

section \<open>Canonical numerals\<close>

lemma digit_char_0 [simp]: "digit_char 0 = 48"
  by (simp add: digit_char_def)

lemma digit_char_pos: "0 < d \<Longrightarrow> digit_char d \<noteq> 48"
  by (simp add: digit_char_def)

lemma dec_str_0 [simp]: "dec_str 0 = [48]"
  by (subst dec_str.simps) simp

lemma hd_dec_str_pos: "0 < n \<Longrightarrow> hd (dec_str n) \<noteq> 48"
proof (induction n rule: dec_str.induct)
  case (1 n)
  show ?case
  proof (cases "n < 10")
    case True
    with 1(2) show ?thesis
      by (subst dec_str.simps) (simp add: digit_char_pos)
  next
    case False
    then have "0 < n div 10"
      by simp
    with 1(1) False show ?thesis
      by (subst dec_str.simps) simp
  qed
qed

lemma dec_str_small: "n < 10 \<Longrightarrow> dec_str n = [digit_char n]"
  by (subst dec_str.simps) simp

lemma is_ascii_digit_not_dash: "is_ascii_digit c \<Longrightarrow> c \<noteq> 45"
  by (auto simp: is_ascii_digit_def)

lemma canonical_dec_int [simp]: "canonical (dec_int v)"
proof (cases "v < 0")
  case True
  then have "0 < nat (- v)"
    by simp
  from hd_dec_str_pos [OF this] True show ?thesis
    by (simp add: canonical_def dec_int_def)
next
  case False
  obtain c cs where s: "dec_str (nat v) = c # cs"
    by (cases "dec_str (nat v)") auto
  have d: "list_all is_ascii_digit (c # cs)"
    using dec_str_ascii [of "nat v"] by (simp add: s)
  then have c: "c \<noteq> 45"
    by (simp add: is_ascii_digit_not_dash)
  have "c \<noteq> 48 \<or> cs = []"
  proof (cases "nat v = 0")
    case True
    with s show ?thesis by simp
  next
    case False
    then have "0 < nat v" by simp
    from hd_dec_str_pos [OF this] s show ?thesis by simp
  qed
  with False s d c show ?thesis
    by (simp add: canonical_def dec_int_def)
qed

lemma canonical_is_numeral: "canonical g \<Longrightarrow> is_numeral g"
  by (cases g)
     (auto simp: canonical_def is_numeral_def all_digits_def is_digit_ascii
        dest: list_all_ascii_digit split: if_splits)

lemma digit_val_pos: "is_ascii_digit c \<Longrightarrow> c \<noteq> 48 \<Longrightarrow> 0 < digit_val c"
  by (auto simp: digit_val_ascii is_ascii_digit_def)

lemma dec_val_pos:
  "list_all is_ascii_digit ds \<Longrightarrow> ds \<noteq> [] \<Longrightarrow> hd ds \<noteq> 48 \<Longrightarrow> 0 < dec_val ds"
proof (induction ds rule: rev_induct)
  case Nil
  then show ?case by simp
next
  case (snoc c xs)
  show ?case
  proof (cases "xs = []")
    case True
    with snoc.prems show ?thesis
      by (simp add: digit_val_pos)
  next
    case False
    with snoc have "0 < dec_val xs"
      by simp
    then show ?thesis
      by simp
  qed
qed

text \<open>
  A run of ASCII digits without a leading zero is the decimal string of its value.
\<close>

lemma dec_str_dec_val:
  "list_all is_ascii_digit ds \<Longrightarrow> ds \<noteq> [] \<Longrightarrow> hd ds \<noteq> 48 \<or> length ds = 1 \<Longrightarrow>
   dec_str (dec_val ds) = ds"
proof (induction ds rule: rev_induct)
  case Nil
  then show ?case by simp
next
  case (snoc c xs)
  from snoc.prems(1) have c: "is_ascii_digit c" and xs: "list_all is_ascii_digit xs"
    by simp_all
  show ?case
  proof (cases "xs = []")
    case True
    then have "dec_val (xs @ [c]) = digit_val c"
      by simp
    with True c show ?thesis
      by (simp add: dec_str_small digit_val_less digit_char_digit_val)
  next
    case False
    with snoc.prems(3) have h: "hd xs \<noteq> 48"
      by simp
    from dec_val_pos [OF xs False h] have "\<not> 10 * dec_val xs + digit_val c < 10"
      by simp
    moreover have "(10 * dec_val xs + digit_val c) div 10 = dec_val xs"
      using digit_val_less [of c] by simp
    moreover have "(10 * dec_val xs + digit_val c) mod 10 = digit_val c"
      using digit_val_less [of c] by simp
    moreover have "dec_str (dec_val xs) = xs"
      using snoc.IH xs False h by simp
    ultimately show ?thesis
      using c by (subst dec_str.simps) (simp add: digit_char_digit_val)
  qed
qed

lemma canonical_roundtrip: "canonical g \<Longrightarrow> dec_int (numeral_value g) = g"
proof -
  assume cg: "canonical g"
  then obtain c cs where g: "g = c # cs"
    by (cases g) (auto simp: canonical_def)
  show ?thesis
  proof (cases "c = 45")
    case True
    with cg g have cs: "cs \<noteq> []" "list_all is_ascii_digit cs" "hd cs \<noteq> 48"
      by (simp_all add: canonical_def)
    then have "0 < dec_val cs"
      by (simp add: dec_val_pos)
    moreover have "dec_str (dec_val cs) = cs"
      using cs by (simp add: dec_str_dec_val)
    ultimately show ?thesis
      using True g by (simp add: numeral_value_def dec_int_def)
  next
    case False
    with cg g have d: "list_all is_ascii_digit g" "c \<noteq> 48 \<or> cs = []"
      by (simp_all add: canonical_def)
    then have "dec_str (dec_val g) = g"
      using g by (intro dec_str_dec_val) auto
    with False g show ?thesis
      by (simp add: numeral_value_def dec_int_def)
  qed
qed

lemma canonical_digit_count:
  "canonical g \<Longrightarrow> length (dec_str (nat \<bar>numeral_value g\<bar>)) = digit_count g"
  using digit_count_dec_int [of "numeral_value g"] by (simp add: canonical_roundtrip)

section \<open>The two passes of the content rewriter\<close>

lemma match_coord_other_open:
  "length t = length t' \<Longrightarrow> t \<noteq> t' \<Longrightarrow> match_coord t' (open_tag t @ r) = None"
  by (cases "match_coord t' (open_tag t @ r)") (auto simp: match_coord_iff open_tag_Cons)

lemma match_coord_close:
  "t' \<noteq> [] \<Longrightarrow> hd t' \<noteq> 47 \<Longrightarrow> match_coord t' (close_tag t @ r) = None"
  by (cases "match_coord t' (close_tag t @ r)"; cases t')
     (auto simp: match_coord_iff open_tag_Cons close_tag_Cons)

text \<open>A tagged numeral of another tag is a run of plain characters.\<close>

lemma segments_other_field:
  assumes "length t = length t'" "t \<noteq> t'" "t' \<noteq> []" "hd t' \<noteq> 47"
    and "60 \<notin> set t" "60 \<notin> set g"
  shows "segments [t'] (open_tag t @ g @ close_tag t @ w) =
           map Plain (open_tag t @ g @ close_tag t) @ segments [t'] w"
proof -
  have 1: "field_at [t'] (60 # (t @ 62 # g) @ close_tag t @ w) = None"
    using match_coord_other_open [OF assms(1,2), of "g @ close_tag t @ w"]
    by (simp add: open_tag_Cons)
  have 2: "field_at [t'] (60 # (47 # t @ [62]) @ w) = None"
    using match_coord_close [OF assms(3,4), of t w]
    by (simp add: close_tag_Cons)
  have 3: "60 \<notin> set (t @ 62 # g)" "60 \<notin> set (47 # t @ [62])"
    using assms(5,6) by simp_all
  have "segments [t'] (open_tag t @ g @ close_tag t @ w) =
          segments [t'] (60 # (t @ 62 # g) @ close_tag t @ w)"
    by (simp add: open_tag_Cons)
  also have "\<dots> = Plain 60 # map Plain (t @ 62 # g) @ segments [t'] (close_tag t @ w)"
    by (simp only: segments_plain [OF 1] segments_copy [OF 3(1)])
  also have "segments [t'] (close_tag t @ w) = segments [t'] (60 # (47 # t @ [62]) @ w)"
    by (simp add: close_tag_Cons)
  also have "\<dots> = Plain 60 # map Plain (47 # t @ [62]) @ segments [t'] w"
    by (simp only: segments_plain [OF 2] segments_copy [OF 3(2)])
  finally show ?thesis
    by (simp add: open_tag_Cons close_tag_Cons)
qed

lemma rewritten_Plain: "concat (map rewritten (map Plain u)) = u"
  by (induction u) simp_all

lemma convertible_Plain: "list_all convertible_segment (map Plain u)"
  by (induction u) simp_all

lemma rewrite_segments_other_field:
  assumes "length t = length t'" "t \<noteq> t'" "t' \<noteq> []" "hd t' \<noteq> 47"
    and "60 \<notin> set t" "60 \<notin> set g"
  shows "rewrite_segments [t'] (open_tag t @ g @ close_tag t @ w) =
           open_tag t @ g @ close_tag t @ rewrite_segments [t'] w"
  unfolding rewrite_segments_def segments_other_field [OF assms]
  by (simp only: map_append concat_append rewritten_Plain append_assoc)

lemma convertible_content_other_field:
  assumes "length t = length t'" "t \<noteq> t'" "t' \<noteq> []" "hd t' \<noteq> 47"
    and "60 \<notin> set t" "60 \<notin> set g"
  shows "convertible_content [t'] (open_tag t @ g @ close_tag t @ w) =
           convertible_content [t'] w"
  unfolding convertible_content_def segments_other_field [OF assms]
  by (simp only: list_all_append convertible_Plain simp_thms)

text \<open>
  Two passes, first over one tag name and then over another of the same length,
  amount to one pass over the tagged numerals of both names: they give the same
  content, and they raise on the same contents.
\<close>

lemma two_passes:
  assumes p: "plain_tags [t, t']" and l: "length t = length t'" and n: "t \<noteq> t'"
  shows "rewrite_segments [t'] (rewrite_segments [t] s) = rewrite_segments [t, t'] s
         \<and> (convertible_content [t] s \<and> convertible_content [t'] (rewrite_segments [t] s))
             = convertible_content [t, t'] s"
proof (induction s rule: length_induct)
  case (1 s)
  from p have pt: "t \<noteq> []" "hd t \<noteq> 47" "60 \<notin> set t"
    and pt': "t' \<noteq> []" "hd t' \<noteq> 47" "60 \<notin> set t'"
    and p1: "plain_tags [t]" and p2: "plain_tags [t']"
    by (simp_all add: plain_tags_iff)
  show ?case
  proof (cases s)
    case Nil
    then show ?thesis by simp
  next
    case (Cons c cs)
    show ?thesis
    proof (cases "match_coord t s")
      case (Some x)
      obtain g rest where x: "x = (g, rest)"
        by (cases x) auto
      from Some x have m: "match_coord t s = Some (g, rest)"
        by simp
      note len = match_coord_length [OF m]
      have fx: "field_at [t] s = Some (t, g, rest)"
        and fxy: "field_at [t, t'] s = Some (t, g, rest)"
        using m by simp_all
      let ?g = "dec_int (transform_coordinate (numeral_value g))"
      have g: "60 \<notin> set ?g"
        by (simp add: numeral_no_lt)
      have r: "rewrite_segments [t']
                 (open_tag t @ ?g @ close_tag t @ rewrite_segments [t] rest) =
               open_tag t @ ?g @ close_tag t
               @ rewrite_segments [t'] (rewrite_segments [t] rest)"
        by (rule rewrite_segments_other_field [OF l n pt'(1,2) pt(3) g])
      have c: "convertible_content [t']
                 (open_tag t @ ?g @ close_tag t @ rewrite_segments [t] rest) =
               convertible_content [t'] (rewrite_segments [t] rest)"
        by (rule convertible_content_other_field [OF l n pt'(1,2) pt(3) g])
      from 1 len have ih:
        "rewrite_segments [t'] (rewrite_segments [t] rest) = rewrite_segments [t, t'] rest"
        "(convertible_content [t] rest \<and> convertible_content [t'] (rewrite_segments [t] rest))
           = convertible_content [t, t'] rest"
        by blast+
      show ?thesis
        unfolding rewrite_segments_field [OF fx] rewrite_segments_field [OF fxy]
          convertible_content_field [OF fx] convertible_content_field [OF fxy] r c
        using ih by auto
    next
      case None
      note nx = None
      show ?thesis
      proof (cases "match_coord t' s")
        case (Some y)
        obtain g rest where y: "y = (g, rest)"
          by (cases y) auto
        from Some y have my: "match_coord t' s = Some (g, rest)"
          by simp
        note len = match_coord_length [OF my]
        from my have num: "is_numeral g"
          and s: "s = open_tag t' @ g @ close_tag t' @ rest"
          by (simp_all add: match_coord_iff)
        note g = numeral_no_lt [OF num]
        have fxy: "field_at [t, t'] s = Some (t', g, rest)"
          using nx my by simp
        have r: "rewrite_segments [t] s =
                   open_tag t' @ g @ close_tag t' @ rewrite_segments [t] rest"
          unfolding s
          by (rule rewrite_segments_other_field [OF l [symmetric] n [symmetric] pt(1,2) pt'(3) g])
        have c: "convertible_content [t] s = convertible_content [t] rest"
          unfolding s
          by (rule convertible_content_other_field
              [OF l [symmetric] n [symmetric] pt(1,2) pt'(3) g])
        have fy: "field_at [t']
                    (open_tag t' @ g @ close_tag t' @ rewrite_segments [t] rest) =
                  Some (t', g, rewrite_segments [t] rest)"
          using num by (simp add: match_coord_iff [THEN iffD2])
        from 1 len have ih:
          "rewrite_segments [t'] (rewrite_segments [t] rest) = rewrite_segments [t, t'] rest"
          "(convertible_content [t] rest \<and> convertible_content [t'] (rewrite_segments [t] rest))
             = convertible_content [t, t'] rest"
          by blast+
        show ?thesis
          unfolding r c rewrite_segments_field [OF fy] convertible_content_field [OF fy]
            rewrite_segments_field [OF fxy] convertible_content_field [OF fxy]
          using ih by auto
      next
        case None
        have fxy: "field_at [t, t'] (c # cs) = None"
          and fx: "field_at [t] (c # cs) = None"
          and fy: "field_at [t'] (c # cs) = None"
          using nx None Cons by simp_all
        have fy': "field_at [t'] (c # rewrite_segments [t] cs) = None"
          using fy by (intro field_at_rewritten_None p1 p2)
        from 1 Cons have ih:
          "rewrite_segments [t'] (rewrite_segments [t] cs) = rewrite_segments [t, t'] cs"
          "(convertible_content [t] cs \<and> convertible_content [t'] (rewrite_segments [t] cs))
             = convertible_content [t, t'] cs"
          by simp_all
        show ?thesis
          unfolding Cons rewrite_segments_plain [OF fx] convertible_content_plain [OF fx]
            rewrite_segments_plain [OF fy'] convertible_content_plain [OF fy']
            rewrite_segments_plain [OF fxy] convertible_content_plain [OF fxy]
          using ih by simp
      qed
    qed
  qed
qed

lemma coord_tags_plain [simp]: "plain_tags coord_tags"
  by (simp add: plain_tags_iff coord_tags_def ustr_def)

lemma replace_x_coord_numeral:
  "is_numeral g \<Longrightarrow>
   replace_x_coord g =
     (if convertible g
      then Inr (open_tag (ustr ''X_COORD'') @ dec_int (transform_coordinate (numeral_value g))
                @ close_tag (ustr ''X_COORD''))
      else Inl ValueError)"
  by (simp add: replace_x_coord_def py_int_numeral py_str_def convertible_def
      open_tag_def close_tag_def ustr_def not_less)

lemma replace_y_coord_numeral:
  "is_numeral g \<Longrightarrow>
   replace_y_coord g =
     (if convertible g
      then Inr (open_tag (ustr ''Y_COORD'') @ dec_int (transform_coordinate (numeral_value g))
                @ close_tag (ustr ''Y_COORD''))
      else Inl ValueError)"
  by (simp add: replace_y_coord_def py_int_numeral py_str_def convertible_def
      open_tag_def close_tag_def ustr_def not_less)

text \<open>
  The content rewriter returns the rewritten content when every tagged numeral is
  convertible, and raises \<^verbatim>\<open>ValueError\<close> otherwise.
\<close>

lemma transform_xml_content_segments:
  "transform_xml_content s =
     (if convertible_content coord_tags s then Inr (rewrite_segments coord_tags s)
      else Inl ValueError)"
proof -
  have "plain_tags [ustr ''X_COORD'', ustr ''Y_COORD'']"
    "length (ustr ''X_COORD'') = length (ustr ''Y_COORD'')"
    "ustr ''X_COORD'' \<noteq> ustr ''Y_COORD''"
    by (simp_all add: plain_tags_iff ustr_def)
  from two_passes [OF this, of s] show ?thesis
    unfolding transform_xml_content_def coord_tags_def
    by (auto simp: re_sub_coord_segments [OF replace_x_coord_numeral]
        re_sub_coord_segments [OF replace_y_coord_numeral])
qed

lemma field_at_coord_tags:
  assumes "t \<in> set coord_tags" "is_numeral g"
  shows "field_at coord_tags (open_tag t @ g @ close_tag t @ w) = Some (t, g, w)"
proof -
  have m: "match_coord t (open_tag t @ g @ close_tag t @ w) = Some (g, w)"
    using assms(2) by (simp add: match_coord_iff)
  from assms(1) have "t = ustr ''X_COORD'' \<or> t = ustr ''Y_COORD''"
    by (simp add: coord_tags_def)
  then show ?thesis
  proof
    assume "t = ustr ''X_COORD''"
    with m show ?thesis by (simp add: coord_tags_def)
  next
    assume t: "t = ustr ''Y_COORD''"
    have "match_coord (ustr ''X_COORD'')
            (open_tag (ustr ''Y_COORD'') @ g @ close_tag (ustr ''Y_COORD'') @ w) = None"
      by (intro match_coord_other_open) (simp_all add: ustr_def)
    with m t show ?thesis by (simp add: coord_tags_def)
  qed
qed

text \<open>
  Rewriting twice gives the content back when every tagged numeral is canonical
  and convertible, and the second rewriting does not raise.
\<close>

lemma rewrite_segments_twice:
  "list_all canonical_segment (segments coord_tags s) \<Longrightarrow>
   convertible_content coord_tags s \<Longrightarrow>
   convertible_content coord_tags (rewrite_segments coord_tags s)
   \<and> rewrite_segments coord_tags (rewrite_segments coord_tags s) = s"
proof (induction s rule: length_induct)
  case (1 s)
  let ?T = "coord_tags"
  show ?case
  proof (cases s)
    case Nil
    then show ?thesis by simp
  next
    case (Cons c cs)
    show ?thesis
    proof (cases "field_at ?T (c # cs)")
      case None
      have f': "field_at ?T (c # rewrite_segments ?T cs) = None"
        using None by (intro field_at_rewritten_None) simp_all
      have "list_all canonical_segment (segments ?T cs)" "convertible_content ?T cs"
        using 1(2,3) None Cons by (simp_all add: convertible_content_plain)
      with 1(1) Cons have
        "convertible_content ?T (rewrite_segments ?T cs)
         \<and> rewrite_segments ?T (rewrite_segments ?T cs) = cs"
        by simp
      then show ?thesis
        unfolding Cons rewrite_segments_plain [OF None] rewrite_segments_plain [OF f']
          convertible_content_plain [OF f']
        by simp
    next
      case (Some x)
      obtain t g rest where x: "x = (t, g, rest)"
        by (cases x) auto
      from Some x have f: "field_at ?T (c # cs) = Some (t, g, rest)"
        by simp
      from field_at_Some [OF f] have t: "t \<in> set ?T"
        and m: "match_coord t (c # cs) = Some (g, rest)"
        by simp_all
      note len = match_coord_length [OF m]
      from m have s: "c # cs = open_tag t @ g @ close_tag t @ rest"
        by (simp add: match_coord_iff)
      from 1(2) f Cons have can: "canonical g"
        and rest: "list_all canonical_segment (segments ?T rest)"
        by (simp_all add: segments_field)
      from 1(3) Cons have conv: "convertible g" and crest: "convertible_content ?T rest"
        by (simp_all add: convertible_content_field [OF f])
      let ?g = "dec_int (transform_coordinate (numeral_value g))"
      have r1: "rewrite_segments ?T (c # cs) =
                  open_tag t @ ?g @ close_tag t @ rewrite_segments ?T rest"
        by (rule rewrite_segments_field [OF f])
      have f2: "field_at ?T (open_tag t @ ?g @ close_tag t @ rewrite_segments ?T rest) =
                 Some (t, ?g, rewrite_segments ?T rest)"
        using t by (intro field_at_coord_tags) simp_all
      have twice: "transform_coordinate (numeral_value ?g) = numeral_value g"
        by (simp add: transform_coordinate_def)
      have cg: "convertible ?g"
        unfolding convertible_def twice
        using conv canonical_digit_count [OF can]
        by (simp add: convertible_def digit_count_dec_int)
      from 1(1) len rest crest Cons have ih:
        "convertible_content ?T (rewrite_segments ?T rest)"
        "rewrite_segments ?T (rewrite_segments ?T rest) = rest"
        by simp_all
      have "rewrite_segments ?T (rewrite_segments ?T (c # cs)) =
              open_tag t @ dec_int (transform_coordinate (numeral_value ?g)) @ close_tag t
              @ rewrite_segments ?T (rewrite_segments ?T rest)"
        by (simp only: r1 rewrite_segments_field [OF f2])
      also have "\<dots> = open_tag t @ g @ close_tag t @ rest"
        by (simp only: twice ih canonical_roundtrip [OF can])
      finally have a: "rewrite_segments ?T (rewrite_segments ?T (c # cs)) = c # cs"
        using s by simp
      have b: "convertible_content ?T (rewrite_segments ?T (c # cs))"
        by (simp only: r1 convertible_content_field [OF f2] cg ih simp_thms)
      from a b Cons show ?thesis
        by simp
    qed
  qed
qed

lemma field_at_coord_tags_None:
  "field_at coord_tags u = None \<longleftrightarrow>
     match_coord (ustr ''X_COORD'') u = None \<and> match_coord (ustr ''Y_COORD'') u = None"
  by (simp only: field_at_None coord_tags_def) simp

lemma no_field_before_iff:
  "no_field_before n s \<longleftrightarrow> (\<forall>i<n. field_at coord_tags (drop i s) = None)"
  unfolding no_field_before_def list_all_iff field_at_coord_tags_None by auto

lemma segments_no_field:
  "\<forall>i<length s. field_at tags (drop i s) = None \<Longrightarrow> segments tags s = map Plain s"
proof (induction s)
  case Nil
  show ?case by simp
next
  case (Cons c cs)
  have "0 < length (c # cs)"
    by simp
  with Cons.prems have "field_at tags (drop 0 (c # cs)) = None"
    by blast
  then have h: "field_at tags (c # cs) = None"
    by simp
  have "\<forall>i<length cs. field_at tags (drop i cs) = None"
  proof (intro allI impI)
    fix i assume "i < length cs"
    then have "Suc i < length (c # cs)" by simp
    with Cons.prems have "field_at tags (drop (Suc i) (c # cs)) = None"
      by blast
    then show "field_at tags (drop i cs) = None" by simp
  qed
  with Cons.IH have "segments tags cs = map Plain cs"
    by blast
  then show ?case
    by (simp add: h)
qed

text \<open>The first tagged numeral of a content, after a prefix in which none starts.\<close>

lemma segments_first_field:
  assumes "t \<in> set coord_tags" "is_numeral g"
    and "\<forall>i<length pre.
           field_at coord_tags (drop i (pre @ open_tag t @ g @ close_tag t @ rest)) = None"
  shows "segments coord_tags (pre @ open_tag t @ g @ close_tag t @ rest) =
           map Plain pre @ Field t g # segments coord_tags rest"
  using assms(3)
proof (induction pre)
  case Nil
  have "field_at coord_tags (open_tag t @ g @ close_tag t @ rest) = Some (t, g, rest)"
    by (rule field_at_coord_tags [OF assms(1,2)])
  from segments_field [OF this] show ?case
    by simp
next
  case (Cons c pre)
  let ?f = "open_tag t @ g @ close_tag t @ rest"
  have "0 < length (c # pre)"
    by simp
  with Cons.prems have "field_at coord_tags (drop 0 ((c # pre) @ ?f)) = None"
    by blast
  then have h: "field_at coord_tags (c # pre @ ?f) = None"
    by simp
  have "\<forall>i<length pre. field_at coord_tags (drop i (pre @ ?f)) = None"
  proof (intro allI impI)
    fix i assume "i < length pre"
    then have "Suc i < length (c # pre)" by simp
    with Cons.prems
    have "field_at coord_tags (drop (Suc i) ((c # pre) @ ?f)) = None"
      by blast
    then show "field_at coord_tags (drop i (pre @ ?f)) = None" by simp
  qed
  from Cons.IH [OF this] show ?case
    by (simp add: h)
qed

section \<open>What the filename rewriter finds\<close>

lemma ustr_dash: "ustr ''-'' = [45]"
  by (simp add: ustr_def)

lemma ustr_xml: "ustr ''.xml'' = [46, 120, 109, 108]"
  by (simp add: ustr_def)

lemma field_03d_nonneg:
  "0 \<le> v \<Longrightarrow>
   field_03d v = replicate (3 - length (dec_str (nat v))) 48 @ dec_str (nat v)"
  by (simp add: field_03d_def Let_def)

lemma field_03d_neg:
  "v < 0 \<Longrightarrow>
   field_03d v =
     45 # replicate (2 - length (dec_str (nat (- v)))) 48 @ dec_str (nat (- v))"
proof -
  assume v: "v < 0"
  then have "nat \<bar>v\<bar> = nat (- v)"
    by simp
  with v show ?thesis
    by (simp add: field_03d_def Let_def ustr_dash numeral_3_eq_3 numeral_2_eq_2)
qed

lemma all_digits_field_03d: "0 \<le> v \<Longrightarrow> all_digits (field_03d v)"
  by (simp add: field_03d_nonneg all_digits_def list_all_iff)
     (use dec_str_digits in \<open>auto simp: list_all_iff\<close>)

lemma dec_val_field_03d: "0 \<le> v \<Longrightarrow> int (dec_val (field_03d v)) = v"
  by (simp add: field_03d_nonneg)

lemma length_field_03d: "0 \<le> v \<Longrightarrow> v \<le> 999 \<Longrightarrow> length (field_03d v) = 3"
proof -
  assume v: "0 \<le> v" "v \<le> 999"
  then have "nat v < 10 ^ 3"
    by simp
  then have "length (dec_str (nat v)) \<le> 3"
    by (rule length_dec_str_le) simp
  with v show ?thesis
    by (simp add: field_03d_nonneg)
qed

lemma length_field_03d_ge: "3 \<le> length (field_03d v)"
  by (cases "v < 0") (simp_all add: field_03d_neg field_03d_nonneg)

text \<open>
  The transformed value of a run of digits has no more digits than the run, or
  two: the filename rewriter raises on its input or not at all.
\<close>

lemma length_dec_str_transform:
  assumes "length ds \<le> max_str_digits"
  shows "length (dec_str (nat \<bar>transform_coordinate (int (dec_val ds))\<bar>)) \<le> max_str_digits"
proof -
  define k where "k = max 2 (length ds)"
  define K :: nat where "K = 10 ^ k"
  have "(10::nat) ^ 2 \<le> 10 ^ k"
    unfolding k_def by (rule power_increasing) simp_all
  then have 1: "100 \<le> K"
    by (simp add: K_def)
  have "(10::nat) ^ length ds \<le> 10 ^ k"
    unfolding k_def by (rule power_increasing) simp_all
  with dec_val_bound [of ds] have 2: "dec_val ds < K"
    unfolding K_def by (rule less_le_trans)
  have "nat \<bar>transform_coordinate (int (dec_val ds))\<bar> \<le> max 25 (dec_val ds)"
    unfolding transform_coordinate_def by arith
  with 1 2 have "nat \<bar>transform_coordinate (int (dec_val ds))\<bar> < K"
    by arith
  then have "length (dec_str (nat \<bar>transform_coordinate (int (dec_val ds))\<bar>)) \<le> k"
    unfolding K_def by (rule length_dec_str_le) (simp add: k_def)
  with assms show ?thesis
    by (simp add: max_str_digits_def k_def)
qed

lemma format_03d_transform:
  "length ds \<le> max_str_digits \<Longrightarrow>
   format_03d (transform_coordinate (int (dec_val ds))) =
     Inr (field_03d (transform_coordinate (int (dec_val ds))))"
  using length_dec_str_transform [of ds] by (simp add: format_03d_def)

text \<open>The matcher of the file-name pattern finds exactly the strings of the pattern.\<close>

lemma match_filename_iff:
  "match_filename s = Some (g1, g2, e) \<longleftrightarrow>
     (\<exists>d1 d2 tl. g1 = 45 # d1 \<and> g2 = 45 # d2 \<and> e = ustr ''.xml''
        \<and> all_digits d1 \<and> all_digits d2 \<and> at_end tl
        \<and> s = 45 # d1 @ 45 # d2 @ ustr ''.xml'' @ tl)"
proof
  assume "match_filename s = Some (g1, g2, e)"
  then obtain s1 s2 s3 where
    m1: "match_dash_digits s = Some (g1, s1)" and
    m2: "match_dash_digits s1 = Some (g2, s2)" and
    m3: "match_lit (ustr ''.xml'') s2 = Some s3" and
    e: "at_end s3" "e = ustr ''.xml''"
    by (auto simp: match_filename_def split: option.splits if_splits)
  from m1 obtain d1 where d1: "g1 = 45 # d1" "all_digits d1" "s = g1 @ s1"
    by (auto simp: match_dash_digits_iff)
  from m2 obtain d2 where d2: "g2 = 45 # d2" "all_digits d2" "s1 = g2 @ s2"
    by (auto simp: match_dash_digits_iff)
  from m3 have "s2 = ustr ''.xml'' @ s3"
    by (simp add: match_lit_iff)
  with d1 d2 e show "\<exists>d1 d2 tl. g1 = 45 # d1 \<and> g2 = 45 # d2 \<and> e = ustr ''.xml''
        \<and> all_digits d1 \<and> all_digits d2 \<and> at_end tl
        \<and> s = 45 # d1 @ 45 # d2 @ ustr ''.xml'' @ tl"
    by auto
next
  assume "\<exists>d1 d2 tl. g1 = 45 # d1 \<and> g2 = 45 # d2 \<and> e = ustr ''.xml''
        \<and> all_digits d1 \<and> all_digits d2 \<and> at_end tl
        \<and> s = 45 # d1 @ 45 # d2 @ ustr ''.xml'' @ tl"
  then obtain d1 d2 tl where
    g: "g1 = 45 # d1" "g2 = 45 # d2" "e = ustr ''.xml''" and
    d: "all_digits d1" "all_digits d2" and tl: "at_end tl" and
    s: "s = 45 # d1 @ 45 # d2 @ ustr ''.xml'' @ tl"
    by blast
  define s1 where "s1 = 45 # d2 @ ustr ''.xml'' @ tl"
  define s2 where "s2 = ustr ''.xml'' @ tl"
  have m1: "match_dash_digits s = Some (g1, s1)"
    using g d s by (simp add: match_dash_digits_iff s1_def)
  have m2: "match_dash_digits s1 = Some (g2, s2)"
    using g d by (simp add: match_dash_digits_iff s1_def s2_def ustr_xml)
  have m3: "match_lit (ustr ''.xml'') s2 = Some tl"
    unfolding s2_def by (rule match_lit_append)
  show "match_filename s = Some (g1, g2, e)"
    by (simp add: match_filename_def m1 m2 m3 tl g)
qed

lemma digit_run_suffix_unique:
  assumes "list_all is_digit a" "list_all is_digit b" "\<not> is_digit x" "\<not> is_digit y"
    and "u @ x # a = v @ y # b"
  shows "a = b \<and> x = y \<and> u = v"
proof -
  from assms(5) have "rev a @ x # rev u = rev b @ y # rev v"
    by (metis rev_append rev.simps(2) append_Cons append_Nil append_assoc)
  moreover have "takeWhile is_digit (rev a @ x # rev u) = rev a"
    using assms(1,3) by (subst takeWhile_append2) (auto simp: list_all_iff)
  moreover have "takeWhile is_digit (rev b @ y # rev v) = rev b"
    using assms(2,4) by (subst takeWhile_append2) (auto simp: list_all_iff)
  ultimately have "rev a = rev b"
    by simp
  with assms(5) show ?thesis
    by simp
qed

lemma no_earlier_match:
  assumes d: "all_digits d1" "all_digits d2"
  shows "match_filename (c # p @ 45 # d1 @ 45 # d2 @ ustr ''.xml'') = None"
proof (rule ccontr)
  assume "match_filename (c # p @ 45 # d1 @ 45 # d2 @ ustr ''.xml'') \<noteq> None"
  then obtain g1 g2 e where
    "match_filename (c # p @ 45 # d1 @ 45 # d2 @ ustr ''.xml'') = Some (g1, g2, e)"
    by (cases "match_filename (c # p @ 45 # d1 @ 45 # d2 @ ustr ''.xml'')") auto
  then obtain e1 e2 tl where e: "all_digits e1" "all_digits e2" and tl: "at_end tl" and
    eq: "c # p @ 45 # d1 @ 45 # d2 @ ustr ''.xml'' =
         45 # e1 @ 45 # e2 @ ustr ''.xml'' @ tl"
    unfolding match_filename_iff by blast
  have "tl = []"
  proof (rule ccontr)
    assume "tl \<noteq> []"
    with tl have t: "tl = [10]"
      by (simp add: at_end_def)
    have "last (c # p @ 45 # d1 @ 45 # d2 @ ustr ''.xml'') = 108"
      by (simp add: ustr_xml)
    moreover have "last (45 # e1 @ 45 # e2 @ ustr ''.xml'' @ tl) = 10"
      by (simp add: t)
    ultimately show False
      using eq by simp
  qed
  with eq have "(c # p @ 45 # d1 @ 45 # d2) @ ustr ''.xml'' =
                (45 # e1 @ 45 # e2) @ ustr ''.xml''"
    by simp
  then have "(c # p @ 45 # d1) @ 45 # d2 = (45 # e1) @ 45 # e2"
    unfolding append_same_eq by simp
  then have "d2 = e2 \<and> (45::nat) = 45 \<and> c # p @ 45 # d1 = 45 # e1"
    using d(2) e(2) by (intro digit_run_suffix_unique) (simp_all add: all_digits_def)
  then have "(c # p) @ 45 # d1 = [] @ 45 # e1"
    by simp
  then have "d1 = e1 \<and> (45::nat) = 45 \<and> c # p = []"
    using d(1) e(1) by (intro digit_run_suffix_unique) (simp_all add: all_digits_def)
  then show False
    by simp
qed

text \<open>
  The search finds the two digit groups that end the name, wherever the prefix
  ends and whatever it holds.
\<close>

lemma re_search_filename_found:
  assumes d: "all_digits d1" "all_digits d2"
  shows "re_search_filename (p @ 45 # d1 @ 45 # d2 @ ustr ''.xml'') =
           Some (length p, 45 # d1, 45 # d2, ustr ''.xml'')"
proof (induction p)
  case Nil
  have "match_filename (45 # d1 @ 45 # d2 @ ustr ''.xml'') =
          Some (45 # d1, 45 # d2, ustr ''.xml'')"
    unfolding match_filename_iff using d
    by (intro exI [of _ d1] exI [of _ d2] exI [of _ "[]"]) (simp add: at_end_def)
  then show ?case
    by simp
next
  case (Cons c p)
  have "match_filename (c # p @ 45 # d1 @ 45 # d2 @ ustr ''.xml'') = None"
    by (rule no_earlier_match [OF d])
  with Cons show ?case
    by simp
qed

lemma re_search_filename_Some:
  "re_search_filename s = Some (i, g) \<Longrightarrow> i \<le> length s \<and> match_filename (drop i s) = Some g"
proof (induction s arbitrary: i)
  case Nil
  then show ?case
    by (auto split: option.splits)
next
  case (Cons c cs)
  show ?case
  proof (cases "match_filename (c # cs)")
    case (Some g')
    with Cons.prems show ?thesis
      by simp
  next
    case None
    with Cons.prems obtain j where j: "re_search_filename cs = Some (j, g)" "i = Suc j"
      by (auto split: option.splits)
    from Cons.IH [OF j(1)] j(2) show ?thesis
      by simp
  qed
qed

text \<open>
  On a name that ends in the pattern, the filename rewriter returns the rebuilt
  name when neither run has more than \<open>max_str_digits\<close> digits, and raises
  \<^verbatim>\<open>ValueError\<close> otherwise.
\<close>

lemma transform_filename_found:
  assumes d: "all_digits d1" "all_digits d2"
  shows "transform_filename (p @ ustr ''-'' @ d1 @ ustr ''-'' @ d2 @ ustr ''.xml'') =
           (if length d1 \<le> max_str_digits \<and> length d2 \<le> max_str_digits
            then Inr (p @ ustr ''-'' @ field_03d (transform_coordinate (int (dec_val d1)))
                      @ ustr ''-'' @ field_03d (transform_coordinate (int (dec_val d2)))
                      @ ustr ''.xml'')
            else Inl ValueError)"
proof -
  have "re_search_filename (p @ ustr ''-'' @ d1 @ ustr ''-'' @ d2 @ ustr ''.xml'') =
          Some (length p, 45 # d1, 45 # d2, ustr ''.xml'')"
    using re_search_filename_found [OF d, of p] by (simp add: ustr_dash)
  then show ?thesis
    by (simp add: transform_filename_def py_int_digits [OF d(1)] py_int_digits [OF d(2)]
        Let_def format_03d_transform not_less)
qed

lemma ends_with_coords_last: "ends_with_coords n \<Longrightarrow> last n = 108"
  by (auto simp: ends_with_coords_def ustr_xml)

lemma ends_with_coords_dash: "ends_with_coords n \<Longrightarrow> 45 \<in> set n"
  by (auto simp: ends_with_coords_def ustr_dash)

lemma re_search_filename_None:
  assumes "\<not> ends_with_coords name"
    and "\<not> (\<exists>n. name = n @ [10] \<and> ends_with_coords n)"
  shows "re_search_filename name = None"
proof (rule ccontr)
  assume "re_search_filename name \<noteq> None"
  then obtain i g1 g2 e where "re_search_filename name = Some (i, g1, g2, e)"
    by (cases "re_search_filename name") auto
  from re_search_filename_Some [OF this]
  have i: "i \<le> length name" and m: "match_filename (drop i name) = Some (g1, g2, e)"
    by simp_all
  from m obtain d1 d2 tl where d: "all_digits d1" "all_digits d2" and tl: "at_end tl" and
    eq: "drop i name = 45 # d1 @ 45 # d2 @ ustr ''.xml'' @ tl"
    unfolding match_filename_iff by blast
  have "name = take i name @ drop i name"
    by simp
  also have "\<dots> = (take i name @ ustr ''-'' @ d1 @ ustr ''-'' @ d2 @ ustr ''.xml'') @ tl"
    by (simp only: eq) (simp add: ustr_dash)
  finally have name:
    "name = (take i name @ ustr ''-'' @ d1 @ ustr ''-'' @ d2 @ ustr ''.xml'') @ tl" .
  have c: "ends_with_coords (take i name @ ustr ''-'' @ d1 @ ustr ''-'' @ d2 @ ustr ''.xml'')"
    unfolding ends_with_coords_def using d by blast
  from tl show False
    unfolding at_end_def
  proof
    assume "tl = []"
    with name c assms(1) show False
      by simp
  next
    assume "tl = [10]"
    with name c assms(2) show False
      by blast
  qed
qed

lemma transform_filename_unmatched:
  "\<not> ends_with_coords name \<Longrightarrow> \<not> (\<exists>n. name = n @ [10] \<and> ends_with_coords n) \<Longrightarrow>
   transform_filename name = Inr name"
  by (simp add: transform_filename_def re_search_filename_None)

lemma ends_with_coords_search:
  "ends_with_coords n \<Longrightarrow> re_search_filename n \<noteq> None"
  by (auto simp: ends_with_coords_def ustr_dash re_search_filename_found)

text \<open>The filename rewriter raises nothing but \<^verbatim>\<open>ValueError\<close>.\<close>

lemma transform_filename_error: "transform_filename name = Inl e \<Longrightarrow> e = ValueError"
proof (cases "re_search_filename name")
  case None
  assume "transform_filename name = Inl e"
  with None show ?thesis
    by (simp add: transform_filename_def)
next
  case (Some x)
  assume a: "transform_filename name = Inl e"
  obtain i g1 g2 ext where x: "x = (i, g1, g2, ext)"
    by (cases x) auto
  from re_search_filename_Some [of name i "(g1, g2, ext)"] Some x
  have "match_filename (drop i name) = Some (g1, g2, ext)"
    by simp
  then obtain d1 d2 where "g1 = 45 # d1" "g2 = 45 # d2" "all_digits d1" "all_digits d2"
    unfolding match_filename_iff by blast
  with Some x a show ?thesis
    by (simp add: transform_filename_def py_int_digits Let_def format_03d_def
        split: if_splits)
qed

lemma field_03d_signed_field:
  "25 < m \<Longrightarrow> field_03d (transform_coordinate (int m)) = signed_field m"
proof -
  assume m: "25 < m"
  then have "nat (- transform_coordinate (int m)) = m - 25"
    by (simp add: transform_coordinate_def)
  moreover from m have "transform_coordinate (int m) < 0"
    by (simp add: transform_coordinate_def)
  ultimately show ?thesis
    by (simp add: field_03d_neg signed_field_def)
qed

lemma length_signed_field: "25 < m \<Longrightarrow> m \<le> 124 \<Longrightarrow> length (signed_field m) = 3"
proof -
  assume m: "25 < m" "m \<le> 124"
  then have "m - 25 < 10 ^ 2"
    by simp
  then have "length (dec_str (m - 25)) \<le> 2"
    by (rule length_dec_str_le) simp
  then show ?thesis
    by (simp add: signed_field_def)
qed

lemma length_signed_field_wide: "124 < m \<Longrightarrow> 3 < length (signed_field m)"
proof -
  assume "124 < m"
  then have "10 ^ 2 \<le> m - 25"
    by simp
  then have "2 < length (dec_str (m - 25))"
    by (rule length_dec_str_gt)
  then show ?thesis
    by (simp add: signed_field_def)
qed

text \<open>Values of the definitions at concrete strings, by evaluation.\<close>

lemmas eval_digits =
  ustr_def all_digits_def is_numeral_def is_digit_low is_ascii_digit_def
  dec_val_def digit_val_ascii numeral_value_def

lemma replicate_2: "replicate 2 x = [x, x]"
  by (simp add: numeral_2_eq_2)

lemmas eval_fields =
  replicate_2 field_03d_def dec_int_def dec_str.simps digit_char_def transform_coordinate_def Let_def
  signed_field_def

lemmas eval_content =
  transform_xml_content_def replace_x_coord_def replace_y_coord_def match_coord_def
  match_lit_def match_signed_def match_digits_def open_tag_def close_tag_def py_int_def
  int_body_def strip_def is_space_def space_points_def py_str_def max_str_digits_def

lemmas eval_name =
  transform_filename_def match_filename_def match_dash_digits_def match_digits_def
  match_lit_def at_end_def py_int_def int_body_def strip_def is_space_def
  space_points_def format_03d_def max_str_digits_def

section \<open>Numerals that are too long\<close>

lemma open_tag_X: "open_tag (ustr ''X_COORD'') = ustr ''<X_COORD>''"
  by (simp add: open_tag_def ustr_def)

lemma close_tag_X: "close_tag (ustr ''X_COORD'') = ustr ''</X_COORD>''"
  by (simp add: close_tag_def ustr_def)

lemma open_tag_Y: "open_tag (ustr ''Y_COORD'') = ustr ''<Y_COORD>''"
  by (simp add: open_tag_def ustr_def)

lemma close_tag_Y: "close_tag (ustr ''Y_COORD'') = ustr ''</Y_COORD>''"
  by (simp add: close_tag_def ustr_def)

text \<open>A content that is one tagged numeral.\<close>

lemma transform_xml_content_single:
  assumes "t \<in> set coord_tags" "is_numeral g"
  shows "transform_xml_content (open_tag t @ g @ close_tag t) =
           (if convertible g
            then Inr (open_tag t @ dec_int (transform_coordinate (numeral_value g))
                      @ close_tag t)
            else Inl ValueError)"
proof -
  have f: "field_at coord_tags (open_tag t @ g @ close_tag t) = Some (t, g, [])"
    using field_at_coord_tags [OF assms, of "[]"] by simp
  show ?thesis
    by (simp add: transform_xml_content_segments convertible_content_field [OF f]
        rewrite_segments_field [OF f])
qed

lemma all_digits_replicate: "0 < k \<Longrightarrow> is_digit c \<Longrightarrow> all_digits (replicate k c)"
  by (simp add: all_digits_def list_all_iff)

lemma is_digit_1 [simp]: "is_digit 49"
  by (simp add: is_digit_low is_ascii_digit_def)

lemma is_digit_9 [simp]: "is_digit 57"
  by (simp add: is_digit_low is_ascii_digit_def)

text \<open>A run of more than \<open>max_str_digits\<close> digits is not convertible.\<close>

lemma long_run_not_convertible:
  "max_str_digits < k \<Longrightarrow> is_digit c \<Longrightarrow> \<not> convertible (replicate k c)"
  by (simp add: convertible_def digit_count_digits all_digits_replicate)

lemma dec_val_nines: "dec_val (replicate k 57) + 1 = 10 ^ k"
proof (induction k)
  case 0
  show ?case by simp
next
  case (Suc k)
  have "replicate (Suc k) 57 = replicate k 57 @ [57::nat]"
    by (simp add: replicate_append_same)
  then have "dec_val (replicate (Suc k) 57) = 10 * dec_val (replicate k 57) + 9"
    by (simp add: digit_val_ascii is_ascii_digit_def)
  with Suc show ?case
    by simp
qed

text \<open>
  The transformed value of minus \<open>k\<close> nines has \<open>k + 1\<close> digits: a numeral that
  \<^verbatim>\<open>int\<close> reads may have a transformed value that cannot be written.
\<close>

lemma minus_nines_not_convertible:
  assumes "0 < k" "max_str_digits \<le> k"
  shows "\<not> convertible (45 # replicate k 57)"
proof -
  have d: "all_digits (replicate k 57)"
    using assms(1) by (simp add: all_digits_replicate)
  have "numeral_value (45 # replicate k 57) = - int (dec_val (replicate k 57))"
    by (simp add: numeral_value_def)
  then have "nat \<bar>transform_coordinate (numeral_value (45 # replicate k 57))\<bar> =
               dec_val (replicate k 57) + 25"
    by (simp add: transform_coordinate_def)
  moreover have "10 ^ k \<le> dec_val (replicate k 57) + 25"
    using dec_val_nines [of k] by simp
  ultimately have
    "k < length (dec_str (nat \<bar>transform_coordinate (numeral_value (45 # replicate k 57))\<bar>))"
    using length_dec_str_gt [of k "dec_val (replicate k 57) + 25"] by simp
  with assms(2) show ?thesis
    by (simp add: convertible_def)
qed

lemma minus_nines_read:
  "0 < k \<Longrightarrow> k \<le> max_str_digits \<Longrightarrow>
   py_int (45 # replicate k 57) = Inr (- int (dec_val (replicate k 57)))"
  by (simp add: py_int_neg_digits all_digits_replicate)

lemma minus_nines_raises:
  assumes "t \<in> set coord_tags"
  shows "transform_xml_content (open_tag t @ (45 # replicate 4300 57) @ close_tag t) =
           Inl ValueError"
proof -
  have g: "is_numeral (45 # replicate 4300 57)"
    by (simp add: is_numeral_cases all_digits_replicate)
  have c: "\<not> convertible (45 # replicate 4300 57)"
    by (rule minus_nines_not_convertible) (simp_all add: max_str_digits_def)
  from transform_xml_content_single [OF assms g] c show ?thesis
    by simp
qed

lemma nines_large: "2 \<le> k \<Longrightarrow> 25 < dec_val (replicate k 57)"
proof -
  assume "2 \<le> k"
  then have "(10::nat) ^ 2 \<le> 10 ^ k"
    by (intro power_increasing) simp_all
  with dec_val_nines [of k] show ?thesis
    by simp
qed

lemma big_content_raises: "transform_xml_content big_content = Inl ValueError"
proof -
  have t: "ustr ''X_COORD'' \<in> set coord_tags"
    by (simp add: coord_tags_def)
  have g: "is_numeral (replicate 4301 49)"
    by (simp add: is_numeral_cases all_digits_replicate)
  have c: "\<not> convertible (replicate 4301 49)"
    by (rule long_run_not_convertible) (simp_all add: max_str_digits_def)
  have "big_content =
          open_tag (ustr ''X_COORD'') @ replicate 4301 49 @ close_tag (ustr ''X_COORD'')"
    by (simp add: big_content_def open_tag_X close_tag_X)
  with transform_xml_content_single [OF t g] c show ?thesis
    by simp
qed

section \<open>What the batch driver prints and writes\<close>















text \<open>What a file that is read and transformed leaves in the output directory.\<close>

lemma process_file_written:
  assumes "read_text w name = Inr content" "transform_xml_content content = Inr new_content"
    and "transform_filename name = Inr new_name"
  shows "out_files (process_file name w) =
           (case write_fault w new_name of
              None \<Rightarrow> (out_files w)(new_name \<mapsto> new_content)
            | Some (OpenFails e) \<Rightarrow> out_files w
            | Some (WriteFails e n) \<Rightarrow> (out_files w)(new_name \<mapsto> take n new_content))"
  using assms
  by (simp add: process_file_def write_text_def print_def split: option.splits fault.splits)

text \<open>The batch driver writes a file under the name that the filename rewriter gives.\<close>

lemma process_file_other:
  "transform_filename name = Inr new_name \<Longrightarrow> k \<noteq> new_name \<Longrightarrow>
   out_files (process_file name w) k = out_files w k"
  by (simp add: process_file_def write_text_def print_def
      split: sum.splits option.splits fault.splits)

lemma outcome_Converted:
  "outcome w name = Converted name new_name \<Longrightarrow>
   transform_filename name = Inr new_name
   \<and> (\<exists>content new_content.
         read_text w name = Inr content \<and> transform_xml_content content = Inr new_content
         \<and> out_files (process_file name w) = (out_files w)(new_name \<mapsto> new_content))"
  by (auto simp: outcome_def process_file_def write_text_def print_def
      split: sum.splits option.splits)


text \<open>The two scenarios.\<close>

lemma scenario_content:
  "transform_xml_content (ustr ''<X_COORD>23</X_COORD>'') = Inr (ustr ''<X_COORD>2</X_COORD>'')"
  by (simp add: eval_content eval_digits eval_fields)




lemma faults_content:
  "transform_xml_content (ustr ''<Y_COORD>10</Y_COORD>'') = Inr (ustr ''<Y_COORD>15</Y_COORD>'')"
  by (simp add: eval_content eval_digits eval_fields)

lemma faults_names:
  "transform_filename (ustr ''big.xml'') = Inr (ustr ''big.xml'')"
  "transform_filename (ustr ''full.xml'') = Inr (ustr ''full.xml'')"
  "transform_filename (ustr ''ok.xml'') = Inr (ustr ''ok.xml'')"
  by (simp_all add: eval_name eval_digits eval_fields)

lemma faults_distinct:
  "ustr ''full.xml'' \<noteq> ustr ''big.xml''" "ustr ''ok.xml'' \<noteq> ustr ''big.xml''"
  "ustr ''ok.xml'' \<noteq> ustr ''full.xml''" "ustr ''big.xml'' \<noteq> ustr ''full.xml''"
  by (simp_all add: ustr_def)



section \<open>Contents with no tagged numeral, and the first tagged numeral\<close>

lemma rewrite_segments_no_field:
  assumes "\<forall>i<length s. field_at tags (drop i s) = None"
  shows "rewrite_segments tags s = s" "convertible_content tags s"
  unfolding rewrite_segments_def convertible_content_def segments_no_field [OF assms]
  by (simp_all only: rewritten_Plain convertible_Plain)

lemma rewrite_segments_first_field:
  assumes "t \<in> set coord_tags" "is_numeral g"
    and "\<forall>i<length pre.
           field_at coord_tags (drop i (pre @ open_tag t @ g @ close_tag t @ rest)) = None"
  shows "rewrite_segments coord_tags (pre @ open_tag t @ g @ close_tag t @ rest) =
           pre @ open_tag t @ dec_int (transform_coordinate (numeral_value g)) @ close_tag t
           @ rewrite_segments coord_tags rest"
    and "convertible_content coord_tags (pre @ open_tag t @ g @ close_tag t @ rest) =
           (convertible g \<and> convertible_content coord_tags rest)"
  unfolding rewrite_segments_def convertible_content_def segments_first_field [OF assms]
  by (simp_all add: rewritten_Plain convertible_Plain del: map_map)

text \<open>Digits of other scripts: the Arabic-Indic digit three and the full-width digits.\<close>

lemma arabic_indic_three: "is_digit 1635" "digit_val 1635 = 3"
  by (simp_all add: is_digit_def digit_val_def decimal_def decimal_zeros_def)

lemma fullwidth_digits:
  "is_digit 65296" "is_digit 65297" "is_digit 65298" "is_digit 65299"
  "digit_val 65296 = 0" "digit_val 65297 = 1" "digit_val 65298 = 2" "digit_val 65299 = 3"
  by (simp_all add: is_digit_def digit_val_def decimal_def decimal_zeros_def)

section \<open>Properties of the coordinate transformer\<close>

text \<open>
  Claim C1, as stated: \<open>transform_coordinate v = - v + 25\<close> for every integer, and in
  particular 25 is a fixed point. The second part fails: 25 is sent to 0.
\<close>

theorem transform_coordinate_25_counterexample:
  "transform_coordinate 25 \<noteq> 25"
  by (simp add: transform_coordinate_def)

text \<open>
  Claim C1, amended. For every integer \<open>v\<close>, \<open>transform_coordinate v\<close> is \<open>- v + 25\<close>; in
  particular 25 is sent to 0, 0 is sent to 25 and 50 to \<open>-25\<close>. The function is
  total on the integers and has no error result.
\<close>

theorem transform_coordinate_value:
  "transform_coordinate v = - v + 25
   \<and> transform_coordinate 25 = 0
   \<and> transform_coordinate 0 = 25
   \<and> transform_coordinate 50 = - 25"
  by (simp add: transform_coordinate_def)

text \<open>
  Claim C2. The coordinate transformer is an involution: applying it twice gives
  the integer back.
\<close>

theorem transform_coordinate_involution:
  "transform_coordinate (transform_coordinate v) = v"
  by (simp add: transform_coordinate_def)

section \<open>Properties of the content rewriter\<close>

text \<open>
  Claim C3, as stated: for every content the content rewriter returns the content
  with each tagged numeral replaced. It fails for a tagged numeral of 4301 digits,
  on which \<^verbatim>\<open>int\<close> raises \<^verbatim>\<open>ValueError\<close>, and for the numeral of a dash and 4300
  nines, which \<^verbatim>\<open>int\<close> reads and whose transformed value has 4301 digits, so that
  the f-string raises \<^verbatim>\<open>ValueError\<close>: the rewriter returns no content.
\<close>

theorem content_rewriter_long_numeral_counterexample:
  "transform_xml_content
     (ustr ''<X_COORD>'' @ replicate 4301 (cp (CHR ''1'')) @ ustr ''</X_COORD>'') =
     Inl ValueError
   \<and> transform_xml_content
       (ustr ''<Y_COORD>-'' @ replicate 4300 (cp (CHR ''9'')) @ ustr ''</Y_COORD>'') =
       Inl ValueError"
proof -
  have 1: "transform_xml_content
     (ustr ''<X_COORD>'' @ replicate 4301 (cp (CHR ''1'')) @ ustr ''</X_COORD>'') =
     Inl ValueError"
    using big_content_raises by (simp only: big_content_def)
  have t: "ustr ''Y_COORD'' \<in> set coord_tags"
    by (simp add: coord_tags_def)
  have g: "is_numeral (45 # replicate 4300 57)"
    by (simp add: is_numeral_cases all_digits_replicate)
  have c: "\<not> convertible (45 # replicate 4300 57)"
    by (rule minus_nines_not_convertible) (simp_all add: max_str_digits_def)
  have "ustr ''<Y_COORD>-'' @ replicate 4300 (cp (CHR ''9'')) @ ustr ''</Y_COORD>'' =
          open_tag (ustr ''Y_COORD'') @ (45 # replicate 4300 57) @ close_tag (ustr ''Y_COORD'')"
    by (simp add: open_tag_def close_tag_def ustr_def)
  with transform_xml_content_single [OF t g] c have 2: "transform_xml_content
       (ustr ''<Y_COORD>-'' @ replicate 4300 (cp (CHR ''9'')) @ ustr ''</Y_COORD>'') =
       Inl ValueError"
    by simp
  from 1 2 show ?thesis
    by (rule conjI)
qed

text \<open>
  Claim C3, amended. A tagged numeral is an \<^verbatim>\<open>X_COORD\<close> or \<^verbatim>\<open>Y_COORD\<close> tag pair
  around an optional dash and one or more decimal digits, of any script; the tagged
  numerals of a content are taken without overlap from the left. A numeral is
  convertible when it has at most 4300 digits and the decimal string of its
  transformed value has at most 4300 digits. For every content whose tagged
  numerals are all convertible, the content rewriter returns the content in which
  each tagged numeral stands with the same tag pair around the decimal string of the
  transformed integer, and every other character stands as it was; for every other
  content it raises \<^verbatim>\<open>ValueError\<close>. The segments make up the content, every field
  among them is a numeral under one of the two tag names, and a decimal string is
  canonical, no padding, no leading zero, a sign only when negative, and denotes
  the integer. The content \<^verbatim>\<open><X_COORD>23</X_COORD><Y_COORD>10</Y_COORD>\<close> becomes
  \<^verbatim>\<open><X_COORD>2</X_COORD><Y_COORD>15</Y_COORD>\<close>, the Arabic-Indic digit three between
  \<^verbatim>\<open>X_COORD\<close> tags becomes \<^verbatim>\<open>22\<close>, and a content in which neither pattern matches
  at any position is returned unchanged. Stated without segments: when the first
  tagged numeral of a content comes after a prefix \<open>pre\<close>, and it and what follows
  are convertible, the result is \<open>pre\<close>, the tag pair around the decimal string of
  the transformed integer, and the result of rewriting what follows.
\<close>

theorem content_rewriter_segments:
  "transform_xml_content s =
     (if convertible_content coord_tags s
      then Inr (concat (map rewritten (segments coord_tags s)))
      else Inl ValueError)
   \<and> concat (map original (segments coord_tags s)) = s
   \<and> list_all well_formed (segments coord_tags s)
   \<and> canonical (dec_int v) \<and> numeral_value (dec_int v) = v
   \<and> transform_xml_content (ustr ''<X_COORD>23</X_COORD><Y_COORD>10</Y_COORD>'') =
       Inr (ustr ''<X_COORD>2</X_COORD><Y_COORD>15</Y_COORD>'')
   \<and> transform_xml_content (ustr ''<X_COORD>'' @ [1635] @ ustr ''</X_COORD>'') =
       Inr (ustr ''<X_COORD>22</X_COORD>'')
   \<and> (no_field_before (length s) s \<longrightarrow> transform_xml_content s = Inr s)
   \<and> ((t = ustr ''X_COORD'' \<or> t = ustr ''Y_COORD'') \<and> is_numeral g
        \<and> no_field_before (length pre) (pre @ open_tag t @ g @ close_tag t @ rest)
        \<and> convertible g \<and> convertible_content coord_tags rest
       \<longrightarrow> (\<exists>out. transform_xml_content rest = Inr out
                \<and> transform_xml_content (pre @ open_tag t @ g @ close_tag t @ rest) =
                    Inr (pre @ open_tag t @ dec_int (transform_coordinate (numeral_value g))
                         @ close_tag t @ out)))"
proof -
  have 1: "transform_xml_content s =
     (if convertible_content coord_tags s
      then Inr (concat (map rewritten (segments coord_tags s)))
      else Inl ValueError)"
    by (simp only: transform_xml_content_segments rewrite_segments_def)
  have 2: "concat (map original (segments coord_tags s)) = s"
    by (rule segments_original)
  have 3: "list_all well_formed (segments coord_tags s)"
    by (rule segments_well_formed) simp
  have 4: "canonical (dec_int v)" "numeral_value (dec_int v) = v"
    by (rule canonical_dec_int, rule numeral_value_dec_int)
  have 5: "transform_xml_content (ustr ''<X_COORD>23</X_COORD><Y_COORD>10</Y_COORD>'') =
          Inr (ustr ''<X_COORD>2</X_COORD><Y_COORD>15</Y_COORD>'')"
    by (simp add: eval_content eval_digits eval_fields)
  have 6: "transform_xml_content (ustr ''<X_COORD>'' @ [1635] @ ustr ''</X_COORD>'') =
       Inr (ustr ''<X_COORD>22</X_COORD>'')"
  proof -
    have t: "ustr ''X_COORD'' \<in> set coord_tags"
      by (simp add: coord_tags_def)
    have g: "is_numeral [1635]"
      by (simp add: is_numeral_def all_digits_def arabic_indic_three)
    have v: "numeral_value [1635] = 3"
      by (simp add: numeral_value_def dec_val_def arabic_indic_three)
    have c: "convertible [1635]"
      by (simp add: convertible_def digit_count_def arabic_indic_three v
          max_str_digits_def eval_fields)
    have d: "dec_int (transform_coordinate 3) = ustr ''22''"
      by (simp add: eval_fields ustr_def)
    from transform_xml_content_single [OF t g] c v d show ?thesis
      by (simp add: open_tag_X close_tag_X) (simp add: ustr_def)
  qed
  have 7: "transform_xml_content s = Inr s" if a: "no_field_before (length s) s"
  proof -
    have "\<forall>i<length s. field_at coord_tags (drop i s) = None"
      using a by (simp only: no_field_before_iff)
    from rewrite_segments_no_field [OF this] show ?thesis
      by (simp only: transform_xml_content_segments if_True)
  qed
  have 8: "\<exists>out. transform_xml_content rest = Inr out
                \<and> transform_xml_content (pre @ open_tag t @ g @ close_tag t @ rest) =
                    Inr (pre @ open_tag t @ dec_int (transform_coordinate (numeral_value g))
                         @ close_tag t @ out)"
    if a: "(t = ustr ''X_COORD'' \<or> t = ustr ''Y_COORD'') \<and> is_numeral g
        \<and> no_field_before (length pre) (pre @ open_tag t @ g @ close_tag t @ rest)
        \<and> convertible g \<and> convertible_content coord_tags rest"
  proof -
    from a have t: "t \<in> set coord_tags" and g: "is_numeral g"
      and c: "convertible g" "convertible_content coord_tags rest"
      by (auto simp: coord_tags_def)
    from a have "no_field_before (length pre) (pre @ open_tag t @ g @ close_tag t @ rest)"
      by blast
    then have n: "\<forall>i<length pre.
        field_at coord_tags (drop i (pre @ open_tag t @ g @ close_tag t @ rest)) = None"
      by (simp only: no_field_before_iff)
    note r = rewrite_segments_first_field [OF t g n]
    have "transform_xml_content rest = Inr (rewrite_segments coord_tags rest)"
      using c(2) by (simp only: transform_xml_content_segments if_True)
    moreover have "transform_xml_content (pre @ open_tag t @ g @ close_tag t @ rest) =
        Inr (pre @ open_tag t @ dec_int (transform_coordinate (numeral_value g))
             @ close_tag t @ rewrite_segments coord_tags rest)"
      using c by (simp only: transform_xml_content_segments r simp_thms if_True)
    ultimately show ?thesis
      by blast
  qed
  from 1 2 3 4 5 6 7 8 show ?thesis
    by blast
qed

text \<open>
  Claim C3, amended, at concrete inputs: a tag pair around a letter is matched at
  no position, and the content is returned as it is; a tagged numeral after one
  character is replaced and the characters around it are kept.
\<close>

theorem content_rewriter_segments_witness:
  "no_field_before (length (ustr ''<X_COORD>x</X_COORD>'')) (ustr ''<X_COORD>x</X_COORD>'')
   \<and> transform_xml_content (ustr ''<X_COORD>x</X_COORD>'') = Inr (ustr ''<X_COORD>x</X_COORD>'')
   \<and> is_numeral (ustr ''-30'')
   \<and> no_field_before (length (ustr ''a''))
        (ustr ''a'' @ open_tag (ustr ''Y_COORD'') @ ustr ''-30'' @ close_tag (ustr ''Y_COORD'')
         @ ustr ''b'')
   \<and> convertible (ustr ''-30'') \<and> convertible_content coord_tags (ustr ''b'')
   \<and> transform_xml_content (ustr ''a<Y_COORD>-30</Y_COORD>b'') =
       Inr (ustr ''a<Y_COORD>55</Y_COORD>b'')"
proof -
  have h1: "no_field_before (length (ustr ''<X_COORD>x</X_COORD>''))
              (ustr ''<X_COORD>x</X_COORD>'')"
    by (simp add: no_field_before_def eval_content eval_digits)
  have h2: "is_numeral (ustr ''-30'')"
    by (simp add: eval_digits)
  have h3: "no_field_before (length (ustr ''a''))
       (ustr ''a'' @ open_tag (ustr ''Y_COORD'') @ ustr ''-30'' @ close_tag (ustr ''Y_COORD'')
        @ ustr ''b'')"
    by (simp add: no_field_before_def eval_content eval_digits)
  have h4: "convertible (ustr ''-30'')"
    by (simp add: convertible_def digit_count_def max_str_digits_def eval_digits eval_fields)
  have h5: "convertible_content coord_tags (ustr ''b'')"
    by (simp add: convertible_content_def coord_tags_def eval_content eval_digits)
  have e: "transform_xml_content (ustr ''b'') = Inr (ustr ''b'')"
    "dec_int (transform_coordinate (numeral_value (ustr ''-30''))) = ustr ''55''"
    by (simp_all add: eval_content eval_digits eval_fields)
  from content_rewriter_segments
    [where s = "ustr ''<X_COORD>x</X_COORD>''" and t = "ustr ''Y_COORD''"
       and g = "ustr ''-30''" and pre = "ustr ''a''" and rest = "ustr ''b''"] h1
  have 1: "transform_xml_content (ustr ''<X_COORD>x</X_COORD>'') =
             Inr (ustr ''<X_COORD>x</X_COORD>'')"
    by blast
  from content_rewriter_segments
    [where s = "ustr ''b''" and t = "ustr ''Y_COORD''"
       and g = "ustr ''-30''" and pre = "ustr ''a''" and rest = "ustr ''b''"] h2 h3 h4 h5
  obtain out where "transform_xml_content (ustr ''b'') = Inr out"
    "transform_xml_content
       (ustr ''a'' @ open_tag (ustr ''Y_COORD'') @ ustr ''-30'' @ close_tag (ustr ''Y_COORD'')
        @ ustr ''b'') =
       Inr (ustr ''a'' @ open_tag (ustr ''Y_COORD'')
            @ dec_int (transform_coordinate (numeral_value (ustr ''-30'')))
            @ close_tag (ustr ''Y_COORD'') @ out)"
    by blast
  then have 2: "transform_xml_content (ustr ''a<Y_COORD>-30</Y_COORD>b'') =
             Inr (ustr ''a<Y_COORD>55</Y_COORD>b'')"
    using e by (simp add: open_tag_def close_tag_def ustr_def)
  from 1 2 h1 h2 h3 h4 h5 show ?thesis
    by blast
qed

text \<open>
  Claim C6, as stated: rewriting twice returns the original content, for every
  content. It fails for a numeral with leading zeros: \<^verbatim>\<open>007\<close> is rewritten to
  \<^verbatim>\<open>18\<close> and then to \<^verbatim>\<open>7\<close>. It fails for a numeral of 4301 digits, too, on which
  the first rewriting raises \<^verbatim>\<open>ValueError\<close>, and for the numeral of a dash and 4300
  nines, whose transformed value has 4301 digits.
\<close>

theorem content_rewrite_twice_counterexample:
  "rewrite_twice (ustr ''<X_COORD>007</X_COORD>'') = Inr (ustr ''<X_COORD>7</X_COORD>'')
   \<and> ustr ''<X_COORD>7</X_COORD>'' \<noteq> ustr ''<X_COORD>007</X_COORD>''
   \<and> rewrite_twice
       (ustr ''<X_COORD>'' @ replicate 4301 (cp (CHR ''1'')) @ ustr ''</X_COORD>'') =
       Inl ValueError
   \<and> rewrite_twice
       (ustr ''<Y_COORD>-'' @ replicate 4300 (cp (CHR ''9'')) @ ustr ''</Y_COORD>'') =
       Inl ValueError"
proof -
  have 1: "transform_xml_content (ustr ''<X_COORD>007</X_COORD>'') =
             Inr (ustr ''<X_COORD>18</X_COORD>'')"
    by (simp add: eval_content eval_digits eval_fields)
  have 2: "transform_xml_content (ustr ''<X_COORD>18</X_COORD>'') =
             Inr (ustr ''<X_COORD>7</X_COORD>'')"
    by (simp add: eval_content eval_digits eval_fields)
  have 3: "ustr ''<X_COORD>7</X_COORD>'' \<noteq> ustr ''<X_COORD>007</X_COORD>''"
    by (simp add: ustr_def)
  have 4: "rewrite_twice
       (ustr ''<X_COORD>'' @ replicate 4301 (cp (CHR ''1'')) @ ustr ''</X_COORD>'') =
       Inl ValueError"
    using big_content_raises by (simp only: rewrite_twice_def big_content_def sum.case)
  have "ustr ''<Y_COORD>-'' @ replicate 4300 (cp (CHR ''9'')) @ ustr ''</Y_COORD>'' =
          open_tag (ustr ''Y_COORD'') @ (45 # replicate 4300 57) @ close_tag (ustr ''Y_COORD'')"
    by (simp add: open_tag_def close_tag_def ustr_def)
  moreover have "ustr ''Y_COORD'' \<in> set coord_tags"
    by (simp add: coord_tags_def)
  ultimately have 5: "rewrite_twice
       (ustr ''<Y_COORD>-'' @ replicate 4300 (cp (CHR ''9'')) @ ustr ''</Y_COORD>'') =
       Inl ValueError"
    by (simp only: rewrite_twice_def minus_nines_raises sum.case)
  from 1 2 3 4 5 show ?thesis
    by (simp only: rewrite_twice_def sum.case simp_thms)
qed

text \<open>
  Claim C6, amended. For every content whose tagged numerals are all canonical (ASCII
  digits, no leading zero, no sign on zero) and convertible (at most 4300 digits,
  and at most 4300 digits in the transformed value), rewriting twice returns the
  original content.
\<close>

theorem content_rewrite_twice:
  "list_all canonical_segment (segments coord_tags s) \<Longrightarrow>
   convertible_content coord_tags s \<Longrightarrow>
   rewrite_twice s = Inr s"
  by (simp add: rewrite_twice_def transform_xml_content_segments rewrite_segments_twice)

text \<open>Claim C6, amended, at a concrete input with two canonical numerals.\<close>

theorem content_rewrite_twice_witness:
  "list_all canonical_segment
     (segments coord_tags (ustr ''a<X_COORD>23</X_COORD><Y_COORD>-10</Y_COORD>b''))
   \<and> convertible_content coord_tags (ustr ''a<X_COORD>23</X_COORD><Y_COORD>-10</Y_COORD>b'')
   \<and> rewrite_twice (ustr ''a<X_COORD>23</X_COORD><Y_COORD>-10</Y_COORD>b'') =
       Inr (ustr ''a<X_COORD>23</X_COORD><Y_COORD>-10</Y_COORD>b'')"
proof -
  have s: "segments coord_tags (ustr ''a<X_COORD>23</X_COORD><Y_COORD>-10</Y_COORD>b'') =
             [Plain 97, Field (ustr ''X_COORD'') (ustr ''23''),
              Field (ustr ''Y_COORD'') (ustr ''-10''), Plain 98]"
    by (simp add: coord_tags_def eval_content eval_digits)
  have h1: "list_all canonical_segment
     (segments coord_tags (ustr ''a<X_COORD>23</X_COORD><Y_COORD>-10</Y_COORD>b''))"
    unfolding s by (simp add: canonical_def ustr_def is_ascii_digit_def)
  have h2: "convertible_content coord_tags
              (ustr ''a<X_COORD>23</X_COORD><Y_COORD>-10</Y_COORD>b'')"
    unfolding convertible_content_def s
    by (simp add: convertible_def digit_count_def max_str_digits_def eval_digits eval_fields)
  from content_rewrite_twice [OF h1 h2] h1 h2 show ?thesis
    by blast
qed

text \<open>
  Claim C10, as stated: the content rewriter never raises, because \<^verbatim>\<open>int\<close> accepts
  whatever the pattern matches. It fails for a tagged numeral of 4301 zeros: the
  pattern matches, group 1 is the 4301 zeros, and \<^verbatim>\<open>int\<close> raises \<^verbatim>\<open>ValueError\<close> on
  it, so the rewriter raises. It fails for the numeral of a dash and 4300 nines,
  too: \<^verbatim>\<open>int\<close> reads it, and the f-string raises \<^verbatim>\<open>ValueError\<close> on the transformed
  value, which has 4301 digits.
\<close>

theorem content_rewriter_total_counterexample:
  "match_coord (ustr ''X_COORD'')
     (ustr ''<X_COORD>'' @ replicate 4301 (cp (CHR ''0'')) @ ustr ''</X_COORD>'') =
     Some (replicate 4301 (cp (CHR ''0'')), [])
   \<and> py_int (replicate 4301 (cp (CHR ''0''))) = Inl ValueError
   \<and> transform_xml_content
       (ustr ''<X_COORD>'' @ replicate 4301 (cp (CHR ''0'')) @ ustr ''</X_COORD>'') =
       Inl ValueError
   \<and> py_int (cp (CHR ''-'') # replicate 4300 (cp (CHR ''9''))) =
       Inr (- int (dec_val (replicate 4300 (cp (CHR ''9'')))))
   \<and> transform_xml_content
       (ustr ''<X_COORD>-'' @ replicate 4300 (cp (CHR ''9'')) @ ustr ''</X_COORD>'') =
       Inl ValueError"
proof -
  have t: "ustr ''X_COORD'' \<in> set coord_tags"
    by (simp add: coord_tags_def)
  have d: "all_digits (replicate 4301 48)"
    by (simp add: all_digits_replicate)
  then have g: "is_numeral (replicate 4301 48)"
    by (simp add: is_numeral_cases)
  have c: "\<not> convertible (replicate 4301 48)"
    by (rule long_run_not_convertible) (simp_all add: max_str_digits_def)
  have s: "ustr ''<X_COORD>'' @ replicate 4301 (cp (CHR ''0'')) @ ustr ''</X_COORD>'' =
          open_tag (ustr ''X_COORD'') @ replicate 4301 48 @ close_tag (ustr ''X_COORD'') @ []"
    by (simp add: open_tag_X close_tag_X)
  have 1: "match_coord (ustr ''X_COORD'')
     (ustr ''<X_COORD>'' @ replicate 4301 (cp (CHR ''0'')) @ ustr ''</X_COORD>'') =
     Some (replicate 4301 (cp (CHR ''0'')), [])"
    unfolding s using g by (simp add: match_coord_iff)
  have 2: "py_int (replicate 4301 (cp (CHR ''0''))) = Inl ValueError"
    using py_int_digits [OF d] by (simp add: max_str_digits_def)
  have 3: "transform_xml_content
       (ustr ''<X_COORD>'' @ replicate 4301 (cp (CHR ''0'')) @ ustr ''</X_COORD>'') =
       Inl ValueError"
    unfolding s using transform_xml_content_single [OF t g] c by simp
  have 4: "py_int (cp (CHR ''-'') # replicate 4300 (cp (CHR ''9''))) =
       Inr (- int (dec_val (replicate 4300 (cp (CHR ''9'')))))"
    using minus_nines_read [of 4300] by (simp add: max_str_digits_def)
  have "ustr ''<X_COORD>-'' @ replicate 4300 (cp (CHR ''9'')) @ ustr ''</X_COORD>'' =
          open_tag (ustr ''X_COORD'') @ (45 # replicate 4300 57) @ close_tag (ustr ''X_COORD'')"
    by (simp add: open_tag_def close_tag_def ustr_def)
  with minus_nines_raises [OF t] have 5: "transform_xml_content
       (ustr ''<X_COORD>-'' @ replicate 4300 (cp (CHR ''9'')) @ ustr ''</X_COORD>'') =
       Inl ValueError"
    by simp
  from 1 2 3 4 5 show ?thesis
    by blast
qed

text \<open>
  Claim C10, amended. The content rewriter returns a result for every content whose
  tagged numerals are all convertible, that is, have at most 4300 digits and a
  transformed value of at most 4300 digits; on any other content it raises, and
  what it raises is \<^verbatim>\<open>ValueError\<close>. Group 1 of a match of either pattern is an
  optional dash and one or more decimal digits, of any script, which is a valid
  integer literal: \<^verbatim>\<open>int\<close> returns its value unless it has more than 4300 digits.
\<close>

theorem content_rewriter_total:
  "(convertible_content coord_tags s \<longrightarrow> (\<exists>out. transform_xml_content s = Inr out))
   \<and> (\<not> convertible_content coord_tags s \<longrightarrow> transform_xml_content s = Inl ValueError)
   \<and> (match_coord tag s = Some (g, rest) \<longrightarrow>
        is_numeral g
        \<and> py_int g = (if max_str_digits < digit_count g then Inl ValueError
                      else Inr (numeral_value g)))"
  by (simp add: transform_xml_content_segments match_coord_iff py_int_numeral)

text \<open>
  Claim C10, amended, at concrete inputs: a negative numeral, that is read and
  rewritten, and a numeral of 4301 digits.
\<close>

theorem content_rewriter_total_witness:
  "convertible_content coord_tags (ustr ''<X_COORD>-5</X_COORD>'')
   \<and> (\<exists>out. transform_xml_content (ustr ''<X_COORD>-5</X_COORD>'') = Inr out)
   \<and> match_coord (ustr ''X_COORD'') (ustr ''<X_COORD>-5</X_COORD>'') = Some (ustr ''-5'', [])
   \<and> py_int (ustr ''-5'') = Inr (- 5)
   \<and> \<not> convertible_content coord_tags big_content
   \<and> transform_xml_content big_content = Inl ValueError"
proof -
  have m: "match_coord (ustr ''X_COORD'') (ustr ''<X_COORD>-5</X_COORD>'') =
             Some (ustr ''-5'', [])"
    by (simp add: eval_content eval_digits)
  have c: "convertible_content coord_tags (ustr ''<X_COORD>-5</X_COORD>'')"
    by (simp add: convertible_content_def coord_tags_def convertible_def digit_count_def
        eval_content eval_digits eval_fields)
  have v: "\<not> max_str_digits < digit_count (ustr ''-5'')" "numeral_value (ustr ''-5'') = - 5"
    by (simp_all add: digit_count_def max_str_digits_def eval_digits)
  have b: "\<not> convertible_content coord_tags big_content"
    using big_content_raises by (simp add: transform_xml_content_segments split: if_splits)
  from content_rewriter_total
    [of "ustr ''<X_COORD>-5</X_COORD>''" "ustr ''X_COORD''" "ustr ''-5''" "[]"] m c v
  have 1: "(\<exists>out. transform_xml_content (ustr ''<X_COORD>-5</X_COORD>'') = Inr out)
           \<and> py_int (ustr ''-5'') = Inr (- 5)"
    by simp
  from content_rewriter_total [of big_content tag g rest] b
  have 2: "transform_xml_content big_content = Inl ValueError"
    by blast
  from 1 2 m c b show ?thesis
    by blast
qed

section \<open>Properties of the filename rewriter\<close>

text \<open>
  Claim C4, as stated: every name that ends in a dash, a run of digits, a dash, a
  run of digits and \<^verbatim>\<open>.xml\<close> is rebuilt from the prefix and the two transformed
  values. It fails for a first run of 4301 digits: \<^verbatim>\<open>int\<close> raises \<^verbatim>\<open>ValueError\<close>
  and the rewriter returns no name.
\<close>

theorem filename_rewriter_long_group_counterexample:
  "all_digits (replicate 4301 (cp (CHR ''1''))) \<and> all_digits (ustr ''010'')
   \<and> transform_filename
       (ustr ''a'' @ ustr ''-'' @ replicate 4301 (cp (CHR ''1'')) @ ustr ''-'' @ ustr ''010''
        @ ustr ''.xml'') =
       Inl ValueError"
proof -
  have d: "all_digits (replicate 4301 (cp (CHR ''1'')))"
    by (simp add: all_digits_replicate)
  have d': "all_digits (ustr ''010'')"
    by (simp add: eval_digits)
  from transform_filename_found [OF d d', of "ustr ''a''"] d d' show ?thesis
    by (simp add: max_str_digits_def)
qed

text \<open>
  Claim C4, amended. For every name that ends in a dash, a run of decimal digits, a
  dash, a run of decimal digits and \<^verbatim>\<open>.xml\<close>, the digits being of any script and
  each run having at most 4300 digits, whatever the prefix \<open>p\<close> before them, the
  filename rewriter reads the two runs as decimal magnitudes, transforms each, and
  returns the prefix, a dash, the first value in the field \<^verbatim>\<open>03d\<close>, a dash, the
  second value in the field \<^verbatim>\<open>03d\<close>, and \<^verbatim>\<open>.xml\<close>; when a run has more than 4300
  digits it raises \<^verbatim>\<open>ValueError\<close>. The name of the docstring is rewritten as the
  docstring says, and a name with full-width digits is rewritten with ASCII digits.
  For a value from 0 to 999 the field is three digits that denote the value.
\<close>

theorem filename_rewriter_matched:
  "all_digits d1 \<Longrightarrow> all_digits d2 \<Longrightarrow>
   transform_filename (p @ ustr ''-'' @ d1 @ ustr ''-'' @ d2 @ ustr ''.xml'') =
     (if length d1 \<le> max_str_digits \<and> length d2 \<le> max_str_digits
      then Inr (p @ ustr ''-'' @ field_03d (transform_coordinate (int (dec_val d1)))
                @ ustr ''-'' @ field_03d (transform_coordinate (int (dec_val d2)))
                @ ustr ''.xml'')
      else Inl ValueError)
   \<and> transform_filename
         (ustr ''1830002926_A2LPAC14A1-FAKY25420001-0-0_SM1C10011 25-023-010.xml'') =
       Inr (ustr ''1830002926_A2LPAC14A1-FAKY25420001-0-0_SM1C10011 25-002-015.xml'')
   \<and> transform_filename
         (ustr ''a-'' @ [65298, 65299] @ ustr ''-'' @ [65297, 65296] @ ustr ''.xml'') =
       Inr (ustr ''a-002-015.xml'')
   \<and> (0 \<le> v \<and> v \<le> 999 \<longrightarrow>
        format_03d v = Inr (field_03d v)
        \<and> length (field_03d v) = 3 \<and> all_digits (field_03d v)
        \<and> int (dec_val (field_03d v)) = v)"
proof -
  assume d: "all_digits d1" "all_digits d2"
  have f: "field_03d (transform_coordinate 23) = ustr ''002''"
    "field_03d (transform_coordinate 10) = ustr ''015''"
    by (simp_all add: eval_fields ustr_def)
  have 1: "transform_filename
         (ustr ''1830002926_A2LPAC14A1-FAKY25420001-0-0_SM1C10011 25-023-010.xml'') =
       Inr (ustr ''1830002926_A2LPAC14A1-FAKY25420001-0-0_SM1C10011 25-002-015.xml'')"
  proof -
    have a: "all_digits (ustr ''023'')" "all_digits (ustr ''010'')"
      "dec_val (ustr ''023'') = 23" "dec_val (ustr ''010'') = 10"
      by (simp_all add: eval_digits)
    from transform_filename_found
      [OF a(1,2), of "ustr ''1830002926_A2LPAC14A1-FAKY25420001-0-0_SM1C10011 25''"]
    show ?thesis
      by (simp add: max_str_digits_def eval_digits eval_fields)
  qed
  have 2: "transform_filename
         (ustr ''a-'' @ [65298, 65299] @ ustr ''-'' @ [65297, 65296] @ ustr ''.xml'') =
       Inr (ustr ''a-002-015.xml'')"
  proof -
    have a: "all_digits [65298, 65299]" "all_digits [65297, 65296]"
      "dec_val [65298, 65299] = 23" "dec_val [65297, 65296] = 10"
      by (simp_all add: all_digits_def dec_val_def fullwidth_digits)
    from transform_filename_found [OF a(1,2), of "ustr ''a''"]
    show ?thesis
      by (simp add: max_str_digits_def dec_val_def fullwidth_digits ustr_def eval_fields)
  qed
  have 3: "format_03d v = Inr (field_03d v)
           \<and> length (field_03d v) = 3 \<and> all_digits (field_03d v)
           \<and> int (dec_val (field_03d v)) = v" if a: "0 \<le> v \<and> v \<le> 999"
  proof -
    from a have "0 \<le> v" "v \<le> 999"
      by simp_all
    then have "nat \<bar>v\<bar> < 10 ^ 3"
      by simp
    then have "length (dec_str (nat \<bar>v\<bar>)) \<le> 3"
      by (rule length_dec_str_le) simp
    then have "format_03d v = Inr (field_03d v)"
      by (simp add: format_03d_def max_str_digits_def)
    with a show ?thesis
      by (simp add: length_field_03d all_digits_field_03d dec_val_field_03d)
  qed
  from transform_filename_found [OF d, of p] 1 2 3 show ?thesis
    by blast
qed

text \<open>Claim C4, amended, at a concrete name.\<close>

theorem filename_rewriter_matched_witness:
  "all_digits (ustr ''023'') \<and> all_digits (ustr ''010'')
   \<and> transform_filename
       (ustr ''scan'' @ ustr ''-'' @ ustr ''023'' @ ustr ''-'' @ ustr ''010'' @ ustr ''.xml'') =
       Inr (ustr ''scan-002-015.xml'')
   \<and> format_03d 7 = Inr (ustr ''007'')"
proof -
  have d: "all_digits (ustr ''023'')" "all_digits (ustr ''010'')"
    by (simp_all add: eval_digits)
  have l: "length (ustr ''023'') \<le> max_str_digits" "length (ustr ''010'') \<le> max_str_digits"
    by (simp_all add: ustr_def max_str_digits_def)
  have f: "field_03d (transform_coordinate (int (dec_val (ustr ''023'')))) = ustr ''002''"
    "field_03d (transform_coordinate (int (dec_val (ustr ''010'')))) = ustr ''015''"
    "field_03d 7 = ustr ''007''"
    by (simp_all add: eval_digits eval_fields)
  from filename_rewriter_matched [OF d, of "ustr ''scan''" 7] l
  have "transform_filename
       (ustr ''scan'' @ ustr ''-'' @ ustr ''023'' @ ustr ''-'' @ ustr ''010'' @ ustr ''.xml'') =
       Inr (ustr ''scan'' @ ustr ''-'' @ ustr ''002'' @ ustr ''-'' @ ustr ''015'' @ ustr ''.xml'')
       \<and> format_03d 7 = Inr (ustr ''007'')"
    by (simp add: f)
  with d show ?thesis
    by (simp add: ustr_def)
qed

text \<open>
  Claim C7, as stated: for every magnitude above 25 the negative value is written,
  with its sign, in a zero-padded field three wide. It fails at the magnitude 125:
  the value is \<open>-100\<close> and the field is \<^verbatim>\<open>-100\<close>, four wide and without padding.
  It fails for a group of 4301 nines, too: no value is written, \<^verbatim>\<open>int\<close> raises
  \<^verbatim>\<open>ValueError\<close>.
\<close>

theorem filename_rewriter_wide_field_counterexample:
  "all_digits (ustr ''125'') \<and> 25 < dec_val (ustr ''125'')
   \<and> transform_filename (ustr ''a-125-010.xml'') = Inr (ustr ''a--100-015.xml'')
   \<and> format_03d (transform_coordinate (int (dec_val (ustr ''125'')))) = Inr (ustr ''-100'')
   \<and> length (ustr ''-100'') \<noteq> 3
   \<and> all_digits (replicate 4301 (cp (CHR ''9'')))
   \<and> 25 < dec_val (replicate 4301 (cp (CHR ''9'')))
   \<and> transform_filename
       (ustr ''a'' @ ustr ''-'' @ replicate 4301 (cp (CHR ''9'')) @ ustr ''-'' @ ustr ''010''
        @ ustr ''.xml'') =
       Inl ValueError"
proof -
  have a: "all_digits (ustr ''125'')" "all_digits (ustr ''010'')"
    "dec_val (ustr ''125'') = 125" "dec_val (ustr ''010'') = 10"
    by (simp_all add: eval_digits)
  have f: "field_03d (transform_coordinate 125) = ustr ''-100''"
    "field_03d (transform_coordinate 10) = ustr ''015''"
    by (simp_all add: eval_fields ustr_def)
  from transform_filename_found [OF a(1,2), of "ustr ''a''"]
  have 1: "transform_filename (ustr ''a-125-010.xml'') = Inr (ustr ''a--100-015.xml'')"
    by (simp add: max_str_digits_def eval_digits eval_fields)
  have 2: "format_03d (transform_coordinate (int (dec_val (ustr ''125'')))) =
             Inr (ustr ''-100'')"
    using format_03d_transform [of "ustr ''125''"]
    by (simp add: max_str_digits_def eval_digits eval_fields)
  have 3: "length (ustr ''-100'') \<noteq> 3"
    by (simp add: ustr_def)
  have d: "all_digits (replicate 4301 (cp (CHR ''9'')))"
    by (simp add: all_digits_replicate)
  have 4: "25 < dec_val (replicate 4301 (cp (CHR ''9'')))"
    using nines_large [of 4301] by simp
  from transform_filename_found [OF d a(2), of "ustr ''a''"]
  have 5: "transform_filename
       (ustr ''a'' @ ustr ''-'' @ replicate 4301 (cp (CHR ''9'')) @ ustr ''-'' @ ustr ''010''
        @ ustr ''.xml'') =
       Inl ValueError"
    by (simp add: max_str_digits_def)
  from a(1,3) 1 2 3 d 4 5 show ?thesis
    by simp
qed

text \<open>
  Claim C7, amended. For every matched name whose digit groups have at most 4300
  digits each, a digit group of magnitude \<open>m\<close> above 25 gives the negative value
  \<open>25 - m\<close>, and the rewriter, with no check, returns the name with that value in
  the field \<^verbatim>\<open>03d\<close>: a dash, then \<open>m - 25\<close> filled with zeros up to two digits. The
  magnitude 30 gives \<^verbatim>\<open>-05\<close>. The field is three characters wide for the magnitudes
  26 to 124; the width being a minimum, it is wider from 125 on, where \<^verbatim>\<open>-100\<close>
  stands without padding.
\<close>

theorem filename_rewriter_negative:
  "all_digits d1 \<Longrightarrow> all_digits d2 \<Longrightarrow>
   length d1 \<le> max_str_digits \<Longrightarrow> length d2 \<le> max_str_digits \<Longrightarrow>
   (25 < dec_val d1 \<longrightarrow>
      transform_coordinate (int (dec_val d1)) < 0
      \<and> transform_filename (p @ ustr ''-'' @ d1 @ ustr ''-'' @ d2 @ ustr ''.xml'') =
          Inr (p @ ustr ''-'' @ signed_field (dec_val d1) @ ustr ''-''
               @ field_03d (transform_coordinate (int (dec_val d2))) @ ustr ''.xml''))
   \<and> (25 < dec_val d2 \<longrightarrow>
      transform_coordinate (int (dec_val d2)) < 0
      \<and> transform_filename (p @ ustr ''-'' @ d1 @ ustr ''-'' @ d2 @ ustr ''.xml'') =
          Inr (p @ ustr ''-'' @ field_03d (transform_coordinate (int (dec_val d1)))
               @ ustr ''-'' @ signed_field (dec_val d2) @ ustr ''.xml''))
   \<and> (25 < m \<longrightarrow> format_03d (transform_coordinate (int m)) = Inr (signed_field m)
        \<or> max_str_digits < length (dec_str (m - 25)))
   \<and> (25 < m \<and> m \<le> 124 \<longrightarrow> length (signed_field m) = 3)
   \<and> (124 < m \<longrightarrow> 3 < length (signed_field m))
   \<and> signed_field 30 = ustr ''-05''
   \<and> signed_field 125 = ustr ''-100''
   \<and> transform_filename (ustr ''a-30-010.xml'') = Inr (ustr ''a--05-015.xml'')"
proof -
  assume d: "all_digits d1" "all_digits d2"
    and l: "length d1 \<le> max_str_digits" "length d2 \<le> max_str_digits"
  from transform_filename_found [OF d, of p] l
  have t: "transform_filename (p @ ustr ''-'' @ d1 @ ustr ''-'' @ d2 @ ustr ''.xml'') =
             Inr (p @ ustr ''-'' @ field_03d (transform_coordinate (int (dec_val d1)))
                  @ ustr ''-'' @ field_03d (transform_coordinate (int (dec_val d2)))
                  @ ustr ''.xml'')"
    by simp
  have 1: "transform_coordinate (int (dec_val d1)) < 0
      \<and> transform_filename (p @ ustr ''-'' @ d1 @ ustr ''-'' @ d2 @ ustr ''.xml'') =
          Inr (p @ ustr ''-'' @ signed_field (dec_val d1) @ ustr ''-''
               @ field_03d (transform_coordinate (int (dec_val d2))) @ ustr ''.xml'')"
    if "25 < dec_val d1"
    using that t by (simp only: field_03d_signed_field) (simp add: transform_coordinate_def)
  have 2: "transform_coordinate (int (dec_val d2)) < 0
      \<and> transform_filename (p @ ustr ''-'' @ d1 @ ustr ''-'' @ d2 @ ustr ''.xml'') =
          Inr (p @ ustr ''-'' @ field_03d (transform_coordinate (int (dec_val d1)))
               @ ustr ''-'' @ signed_field (dec_val d2) @ ustr ''.xml'')"
    if "25 < dec_val d2"
    using that t by (simp only: field_03d_signed_field) (simp add: transform_coordinate_def)
  have 3: "format_03d (transform_coordinate (int m)) = Inr (signed_field m)
        \<or> max_str_digits < length (dec_str (m - 25))" if m: "25 < m"
  proof -
    from m have "nat \<bar>transform_coordinate (int m)\<bar> = m - 25"
      by (simp add: transform_coordinate_def)
    then show ?thesis
      by (simp add: format_03d_def field_03d_signed_field [OF m])
  qed
  have 4: "length (signed_field m) = 3" if "25 < m \<and> m \<le> 124"
    using that by (simp add: length_signed_field)
  have 5: "3 < length (signed_field m)" if "124 < m"
    using that by (rule length_signed_field_wide)
  have 6: "signed_field 30 = ustr ''-05''" "signed_field 125 = ustr ''-100''"
    by (simp_all add: eval_fields ustr_def)
  have 7: "transform_filename (ustr ''a-30-010.xml'') = Inr (ustr ''a--05-015.xml'')"
    by (simp add: eval_name eval_digits eval_fields)
  from 1 2 3 4 5 6 7 show ?thesis
    by blast
qed

text \<open>Claim C7, amended, at a concrete name with both groups above 25.\<close>

theorem filename_rewriter_negative_witness:
  "all_digits (ustr ''30'') \<and> all_digits (ustr ''125'')
   \<and> length (ustr ''30'') \<le> max_str_digits \<and> length (ustr ''125'') \<le> max_str_digits
   \<and> 25 < dec_val (ustr ''30'') \<and> 25 < dec_val (ustr ''125'')
   \<and> transform_filename
       (ustr ''a'' @ ustr ''-'' @ ustr ''30'' @ ustr ''-'' @ ustr ''125'' @ ustr ''.xml'') =
       Inr (ustr ''a--05--100.xml'')
   \<and> length (signed_field 30) = 3 \<and> 3 < length (signed_field 125)"
proof -
  have d: "all_digits (ustr ''30'')" "all_digits (ustr ''125'')"
    by (simp_all add: eval_digits)
  have l: "length (ustr ''30'') \<le> max_str_digits" "length (ustr ''125'') \<le> max_str_digits"
    by (simp_all add: ustr_def max_str_digits_def)
  have v: "dec_val (ustr ''30'') = 30" "dec_val (ustr ''125'') = 125"
    by (simp_all add: eval_digits)
  have f: "signed_field 30 = ustr ''-05''" "signed_field 125 = ustr ''-100''"
    "field_03d (transform_coordinate 125) = ustr ''-100''"
    by (simp_all add: eval_fields ustr_def)
  from filename_rewriter_negative [OF d l, of "ustr ''a''" 30]
  have 1: "transform_filename
       (ustr ''a'' @ ustr ''-'' @ ustr ''30'' @ ustr ''-'' @ ustr ''125'' @ ustr ''.xml'') =
       Inr (ustr ''a'' @ ustr ''-'' @ ustr ''-05'' @ ustr ''-'' @ ustr ''-100'' @ ustr ''.xml'')
       \<and> length (signed_field 30) = 3"
    by (simp add: v f)
  from filename_rewriter_negative [OF d l, of "ustr ''a''" 125]
  have 2: "3 < length (signed_field 125)"
    by (simp add: ustr_def)
  from 1 2 d l v show ?thesis
    by (simp add: ustr_def)
qed

text \<open>
  Claim C9. For every prefix and all integers \<open>x\<close> and \<open>y\<close> from 0 to 25, the field
  \<^verbatim>\<open>03d\<close> of each is written without an exception, and the filename rewriter
  applied twice to the name with \<open>x\<close> and \<open>y\<close> in these three-digit fields returns
  that name.
\<close>

theorem filename_rewriter_involution:
  "0 \<le> x \<Longrightarrow> x \<le> 25 \<Longrightarrow> 0 \<le> y \<Longrightarrow> y \<le> 25 \<Longrightarrow>
   format_03d x = Inr (field_03d x) \<and> format_03d y = Inr (field_03d y)
   \<and> rename_twice (p @ ustr ''-'' @ field_03d x @ ustr ''-'' @ field_03d y @ ustr ''.xml'') =
       Inr (p @ ustr ''-'' @ field_03d x @ ustr ''-'' @ field_03d y @ ustr ''.xml'')"
proof -
  assume x: "0 \<le> x" "x \<le> 25" and y: "0 \<le> y" "y \<le> 25"
  let ?x = "transform_coordinate x" and ?y = "transform_coordinate y"
  have x': "0 \<le> ?x" "?x \<le> 999" "transform_coordinate ?x = x"
    and y': "0 \<le> ?y" "?y \<le> 999" "transform_coordinate ?y = y"
    using x y by (simp_all add: transform_coordinate_def)
  have short: "length (field_03d v) \<le> max_str_digits
               \<and> length (dec_str (nat \<bar>v\<bar>)) \<le> max_str_digits"
    if "0 \<le> v" "v \<le> 999" for v
  proof -
    from that have "nat \<bar>v\<bar> < 10 ^ 3"
      by simp
    then have "length (dec_str (nat \<bar>v\<bar>)) \<le> 3"
      by (rule length_dec_str_le) simp
    with that show ?thesis
      by (simp add: length_field_03d max_str_digits_def)
  qed
  have 0: "format_03d x = Inr (field_03d x)" "format_03d y = Inr (field_03d y)"
    using short [of x] short [of y] x y by (simp_all add: format_03d_def)
  have 1: "transform_filename
             (p @ ustr ''-'' @ field_03d x @ ustr ''-'' @ field_03d y @ ustr ''.xml'') =
           Inr (p @ ustr ''-'' @ field_03d ?x @ ustr ''-'' @ field_03d ?y @ ustr ''.xml'')"
    using transform_filename_found [of "field_03d x" "field_03d y" p] x y
      short [of x] short [of y]
    by (simp add: all_digits_field_03d dec_val_field_03d)
  have 2: "transform_filename
             (p @ ustr ''-'' @ field_03d ?x @ ustr ''-'' @ field_03d ?y @ ustr ''.xml'') =
           Inr (p @ ustr ''-'' @ field_03d x @ ustr ''-'' @ field_03d y @ ustr ''.xml'')"
    using transform_filename_found [of "field_03d ?x" "field_03d ?y" p] x' y'
      short [of ?x] short [of ?y]
    by (simp add: all_digits_field_03d dec_val_field_03d)
  have "rename_twice (p @ ustr ''-'' @ field_03d x @ ustr ''-'' @ field_03d y @ ustr ''.xml'') =
       Inr (p @ ustr ''-'' @ field_03d x @ ustr ''-'' @ field_03d y @ ustr ''.xml'')"
    unfolding rename_twice_def by (simp only: 1 2 sum.case)
  with 0 show ?thesis
    by blast
qed

text \<open>Claim C9, at a concrete name.\<close>

theorem filename_rewriter_involution_witness:
  "(0::int) \<le> 23 \<and> (23::int) \<le> 25 \<and> (0::int) \<le> 10 \<and> (10::int) \<le> 25
   \<and> format_03d 23 = Inr (ustr ''023'') \<and> format_03d 10 = Inr (ustr ''010'')
   \<and> ustr ''SM1 25'' @ ustr ''-'' @ ustr ''023'' @ ustr ''-'' @ ustr ''010'' @ ustr ''.xml'' =
       ustr ''SM1 25-023-010.xml''
   \<and> rename_twice (ustr ''SM1 25-023-010.xml'') = Inr (ustr ''SM1 25-023-010.xml'')"
proof -
  have f: "field_03d 23 = ustr ''023''" "field_03d 10 = ustr ''010''"
    by (simp_all add: eval_fields ustr_def)
  have n: "ustr ''SM1 25'' @ ustr ''-'' @ ustr ''023'' @ ustr ''-'' @ ustr ''010''
             @ ustr ''.xml'' = ustr ''SM1 25-023-010.xml''"
    by (simp add: ustr_def)
  from filename_rewriter_involution [of 23 10 "ustr ''SM1 25''"] show ?thesis
    by (simp add: f n)
qed

text \<open>
  Claim C8, as stated: every name that does not end in the pattern is returned
  unchanged, so the batch driver still writes such a file under its original name.
  The first part fails for a name that ends in the pattern and one line feed: \<^verbatim>\<open>$\<close>
  matches before the final line feed, and the rebuilt name drops it. The second
  part fails for a file whose name does not end in the pattern and whose reading
  raises, or whose content holds a numeral of 4301 digits, or whose writing raises:
  the batch driver prints the failure line, and leaves no file or an empty one.
\<close>

theorem filename_rewriter_line_feed_counterexample:
  "\<not> ends_with_coords (ustr ''a-1-2.xml'' @ [10])
   \<and> transform_filename (ustr ''a-1-2.xml'' @ [10]) = Inr (ustr ''a-024-023.xml'')
   \<and> ustr ''a-024-023.xml'' \<noteq> ustr ''a-1-2.xml'' @ [10]
   \<and> \<not> ends_with_coords (ustr ''bad.xml'')
   \<and> outcome scenario (ustr ''bad.xml'') = Failed (ustr ''bad.xml'') (OSError ''denied'')
   \<and> out_files (process_file (ustr ''bad.xml'') scenario) = Map.empty
   \<and> \<not> ends_with_coords (ustr ''big.xml'')
   \<and> outcome scenario_faults (ustr ''big.xml'') = Failed (ustr ''big.xml'') ValueError
   \<and> out_files (process_file (ustr ''big.xml'') scenario_faults) = Map.empty
   \<and> \<not> ends_with_coords (ustr ''full.xml'')
   \<and> outcome scenario_faults (ustr ''full.xml'') =
       Failed (ustr ''full.xml'') (OSError ''disk full'')
   \<and> out_files (process_file (ustr ''full.xml'') scenario_faults) =
       [ustr ''full.xml'' \<mapsto> []]"
proof -
  have 1: "\<not> ends_with_coords (ustr ''a-1-2.xml'' @ [10])"
  proof
    assume "ends_with_coords (ustr ''a-1-2.xml'' @ [10])"
    from ends_with_coords_last [OF this] show False
      by simp
  qed
  have 2: "transform_filename (ustr ''a-1-2.xml'' @ [10]) = Inr (ustr ''a-024-023.xml'')"
    by (simp add: eval_name eval_digits eval_fields)
  have 3: "ustr ''a-024-023.xml'' \<noteq> ustr ''a-1-2.xml'' @ [10]"
    by (simp add: ustr_def)
  have 4: "\<not> ends_with_coords (ustr ''bad.xml'')" "\<not> ends_with_coords (ustr ''big.xml'')"
    "\<not> ends_with_coords (ustr ''full.xml'')"
    using ends_with_coords_dash [of "ustr ''bad.xml''"]
      ends_with_coords_dash [of "ustr ''big.xml''"]
      ends_with_coords_dash [of "ustr ''full.xml''"]
    by (auto simp: ustr_def)
  have 5: "outcome scenario (ustr ''bad.xml'') = Failed (ustr ''bad.xml'') (OSError ''denied'')"
    "out_files (process_file (ustr ''bad.xml'') scenario) = Map.empty"
    by (simp_all add: outcome_def process_file_def print_def scenario_def)
  have 6: "outcome scenario_faults (ustr ''big.xml'') = Failed (ustr ''big.xml'') ValueError"
    "out_files (process_file (ustr ''big.xml'') scenario_faults) = Map.empty"
    by (simp_all add: outcome_def process_file_def print_def scenario_faults_def
        big_content_raises)
  have 7: "outcome scenario_faults (ustr ''full.xml'') =
             Failed (ustr ''full.xml'') (OSError ''disk full'')"
    "out_files (process_file (ustr ''full.xml'') scenario_faults) =
       [ustr ''full.xml'' \<mapsto> []]"
    by (simp_all add: outcome_def process_file_def write_text_def print_def
        scenario_faults_def faults_content faults_names faults_distinct)
  from 1 2 3 4 5 6 7 show ?thesis
    by blast
qed

text \<open>
  Claim C8, amended. For every name that neither ends in the pattern (a dash, a run
  of decimal digits, a dash, a run of decimal digits and \<^verbatim>\<open>.xml\<close>) nor is such a
  name followed by one line feed, the filename rewriter returns the name unchanged
  and raises nothing; so in the batch driver such a file, when reading it,
  rewriting its content and writing it raise nothing, is written under its
  original name, and whatever is raised the batch driver writes under no other
  name.
\<close>

theorem filename_rewriter_unmatched:
  "\<not> ends_with_coords name \<Longrightarrow>
   \<not> (\<exists>n. name = n @ [10] \<and> ends_with_coords n) \<Longrightarrow>
   transform_filename name = Inr name
   \<and> (read_text w name = Inr content \<and> transform_xml_content content = Inr new_content
        \<and> write_fault w name = None \<longrightarrow>
        outcome w name = Converted name name
        \<and> out_files (process_file name w) = (out_files w)(name \<mapsto> new_content))
   \<and> (k \<noteq> name \<longrightarrow> out_files (process_file name w) k = out_files w k)"
proof -
  assume a: "\<not> ends_with_coords name"
    "\<not> (\<exists>n. name = n @ [10] \<and> ends_with_coords n)"
  have t: "transform_filename name = Inr name"
    by (rule transform_filename_unmatched [OF a])
  have 1: "outcome w name = Converted name name
        \<and> out_files (process_file name w) = (out_files w)(name \<mapsto> new_content)"
    if "read_text w name = Inr content \<and> transform_xml_content content = Inr new_content
        \<and> write_fault w name = None"
    using that t process_file_written [of w name content new_content name]
    by (simp add: outcome_def)
  have 2: "out_files (process_file name w) k = out_files w k" if "k \<noteq> name"
    using t that by (rule process_file_other)
  from t 1 2 show ?thesis
    by blast
qed

text \<open>Claim C8, amended, at the third file of the batch scenario.\<close>

theorem filename_rewriter_unmatched_witness:
  "\<not> ends_with_coords (ustr ''c.xml'')
   \<and> \<not> (\<exists>n. ustr ''c.xml'' = n @ [10] \<and> ends_with_coords n)
   \<and> transform_filename (ustr ''c.xml'') = Inr (ustr ''c.xml'')
   \<and> read_text scenario (ustr ''c.xml'') = Inr (ustr ''<X_COORD>23</X_COORD>'')
   \<and> transform_xml_content (ustr ''<X_COORD>23</X_COORD>'') = Inr (ustr ''<X_COORD>2</X_COORD>'')
   \<and> write_fault scenario (ustr ''c.xml'') = None
   \<and> outcome scenario (ustr ''c.xml'') = Converted (ustr ''c.xml'') (ustr ''c.xml'')
   \<and> out_files (process_file (ustr ''c.xml'') scenario) =
       [ustr ''c.xml'' \<mapsto> ustr ''<X_COORD>2</X_COORD>'']
   \<and> ustr ''d.xml'' \<noteq> ustr ''c.xml''
   \<and> out_files (process_file (ustr ''c.xml'') scenario) (ustr ''d.xml'') = None"
proof -
  have 1: "\<not> ends_with_coords (ustr ''c.xml'')"
    using ends_with_coords_dash [of "ustr ''c.xml''"] by (auto simp: ustr_def)
  have 2: "\<not> (\<exists>n. ustr ''c.xml'' = n @ [10] \<and> ends_with_coords n)"
  proof
    assume "\<exists>n. ustr ''c.xml'' = n @ [10] \<and> ends_with_coords n"
    then obtain n where "ustr ''c.xml'' = n @ [10]"
      by blast
    then have "last (ustr ''c.xml'') = last (n @ [10])"
      by (rule arg_cong)
    then show False
      by (simp add: ustr_def)
  qed
  have 3: "read_text scenario (ustr ''c.xml'') = Inr (ustr ''<X_COORD>23</X_COORD>'')"
    "write_fault scenario (ustr ''c.xml'') = None" "out_files scenario = Map.empty"
    by (simp_all add: scenario_def ustr_def)
  have 4: "ustr ''d.xml'' \<noteq> ustr ''c.xml''"
    by (simp add: ustr_def)
  note 5 = scenario_content
  from filename_rewriter_unmatched
    [OF 1 2, of scenario "ustr ''<X_COORD>23</X_COORD>''" "ustr ''<X_COORD>2</X_COORD>''"
       "ustr ''d.xml''"] 1 2 3 4 5
  show ?thesis
    by simp
qed

section \<open>Properties of the batch driver\<close>



end
